theory Spec2Isabelle
  imports Complex_Main "HOL-Library.AList"
begin

unbundle bit_operations_syntax

section \<open>JavaScript values\<close>

text \<open>
  The accessibility nodes handled by \<^verbatim>\<open>BrowserSession.ts\<close> are untyped (\<^verbatim>\<open>any\<close>), and the
  code relies on JavaScript truthiness, on \<^verbatim>\<open>??\<close>, on \<^verbatim>\<open>===\<close> and on template strings.
  \<open>jsval\<close> is the fragment of JavaScript values those nodes hold: \<open>JWrap v\<close> is an object
  with a \<^verbatim>\<open>value\<close> member \<open>v\<close> (\<open>JUndefined\<close> when the member is absent), the shape of a
  CDP \<^verbatim>\<open>AXValue\<close>. Numbers are the integers CDP sends in these places (depth, node ids,
  heading levels). Strings are sequences of 8-bit code units.
\<close>

datatype jsval = JUndefined | JNull | JBool bool | JNum int | JStr string | JWrap jsval

fun truthy :: "jsval \<Rightarrow> bool" where
  "truthy JUndefined = False"
| "truthy JNull = False"
| "truthy (JBool b) = b"
| "truthy (JNum n) = (n \<noteq> 0)"
| "truthy (JStr s) = (s \<noteq> [])"
| "truthy (JWrap v) = True"

fun nullish :: "jsval \<Rightarrow> bool" where
  "nullish JUndefined = True"
| "nullish JNull = True"
| "nullish v = False"

text \<open>\<^verbatim>\<open>a ?? b\<close>\<close>

definition coalesce :: "jsval \<Rightarrow> jsval \<Rightarrow> jsval" where
  "coalesce a b = (if nullish a then b else a)"

text \<open>\<^verbatim>\<open>x.value\<close> for an \<open>x\<close> that is neither null nor undefined: a primitive has no such member.\<close>

fun member_value :: "jsval \<Rightarrow> jsval" where
  "member_value (JWrap v) = v"
| "member_value v = JUndefined"

text \<open>\<^verbatim>\<open>x?.value\<close>\<close>

definition opt_member_value :: "jsval \<Rightarrow> jsval" where
  "opt_member_value x = (if nullish x then JUndefined else member_value x)"

text \<open>
  \<^verbatim>\<open>a === b\<close>. Two objects are equal only when they are the same reference; the wrappers
  compared here come from different members of a node, so they are distinct objects.
\<close>

fun strict_eq :: "jsval \<Rightarrow> jsval \<Rightarrow> bool" where
  "strict_eq JUndefined JUndefined = True"
| "strict_eq JNull JNull = True"
| "strict_eq (JBool a) (JBool b) = (a = b)"
| "strict_eq (JNum a) (JNum b) = (a = b)"
| "strict_eq (JStr a) (JStr b) = (a = b)"
| "strict_eq a b = False"

subsection \<open>Numbers in template strings\<close>

text \<open>The decimal digit \<open>n\<close> (below ten) as a character: the digits are consecutive codes.\<close>

definition digit_char :: "nat \<Rightarrow> char" where
  "digit_char n = char_of (of_char (CHR ''0'') + n)"

fun string_of_nat :: "nat \<Rightarrow> string" where
  "string_of_nat n =
     (if n < 10 then [digit_char n] else string_of_nat (n div 10) @ [digit_char (n mod 10)])"

declare string_of_nat.simps [simp del]

definition string_of_int :: "int \<Rightarrow> string" where
  "string_of_int i = (if i < 0 then CHR ''-'' # string_of_nat (nat (- i)) else string_of_nat (nat i))"

text \<open>The string a template literal \<^verbatim>\<open>${v}\<close> inserts.\<close>

fun to_string :: "jsval \<Rightarrow> string" where
  "to_string JUndefined = ''undefined''"
| "to_string JNull = ''null''"
| "to_string (JBool b) = (if b then ''true'' else ''false'')"
| "to_string (JNum n) = string_of_int n"
| "to_string (JStr s) = s"
| "to_string (JWrap v) = ''[object Object]''"

section \<open>Input key mapper (\<^verbatim>\<open>utils\<close>)\<close>

record KeyModifiers =
  alt :: bool
  ctrl :: bool
  meta :: bool
  shift :: bool

definition getModifierFlags :: "KeyModifiers \<Rightarrow> nat" where
  "getModifierFlags modifiers =
     (let flags = 0;
          flags = (if alt modifiers then flags OR 1 else flags);
          flags = (if ctrl modifiers then flags OR 2 else flags);
          flags = (if meta modifiers then flags OR 4 else flags);
          flags = (if shift modifiers then flags OR 8 else flags)
      in flags)"

definition KEY_CODE_MAP :: "(string \<times> nat) list" where
  "KEY_CODE_MAP =
     [(''Backspace'', 8), (''Tab'', 9), (''Enter'', 13), (''Shift'', 16), (''Control'', 17),
      (''Alt'', 18), (''Escape'', 27), (''Space'', 32), (''ArrowLeft'', 37), (''ArrowUp'', 38),
      (''ArrowRight'', 39), (''ArrowDown'', 40), (''Delete'', 46),
      (''F1'', 112), (''F2'', 113), (''F3'', 114), (''F4'', 115), (''F5'', 116), (''F6'', 117),
      (''F7'', 118), (''F8'', 119), (''F9'', 120), (''F10'', 121), (''F11'', 122), (''F12'', 123)]"

text \<open>
  \<^verbatim>\<open>getKeyCode(key, code)\<close>. The four single-character branches of the source are kept in
  their order; \<^verbatim>\<open>toUpperCase\<close> on \<^verbatim>\<open>a..z\<close> subtracts 32 from the character code.
\<close>

definition getKeyCode :: "string \<Rightarrow> string \<Rightarrow> nat" where
  "getKeyCode key code =
     (case map_of KEY_CODE_MAP key of
        Some n \<Rightarrow> n
      | None \<Rightarrow>
          (case key of
             [c] \<Rightarrow>
               (if of_char (CHR ''a'') \<le> (of_char c :: nat) \<and> (of_char c :: nat) \<le> of_char (CHR ''z'')
                then of_char c - 32
                else if of_char (CHR ''A'') \<le> (of_char c :: nat) \<and> (of_char c :: nat) \<le> of_char (CHR ''Z'')
                then of_char c
                else if of_char (CHR ''0'') \<le> (of_char c :: nat) \<and> (of_char c :: nat) \<le> of_char (CHR ''9'')
                then of_char c
                else of_char c)
           | _ \<Rightarrow> 0))"

section \<open>Accessibility tree compressor\<close>

text \<open>
  An accessibility node as the compressor reads it. \<open>role\<close> is \<^verbatim>\<open>node.role?.value\<close> (absent
  when the node has no role or the role has no value); \<open>childIds\<close>, \<open>backendDOMNodeId\<close> and
  \<open>properties\<close> are optional members; \<open>members\<close> holds the other own members that
  \<^verbatim>\<open>node[propertyName]\<close> can reach (\<^verbatim>\<open>name\<close>, \<^verbatim>\<open>description\<close>, \<^verbatim>\<open>value\<close>, ...).
\<close>

record AXNode =
  nodeId :: string
  role :: "string option"
  ignored :: bool
  childIds :: "string list option"
  backendDOMNodeId :: "int option"
  properties :: "(string \<times> jsval) list option"
  members :: "(string \<times> jsval) list"

text \<open>\<^verbatim>\<open>node.role?.value || ''\<close>\<close>

definition role_value :: "AXNode \<Rightarrow> string" where
  "role_value node = (case role node of None \<Rightarrow> [] | Some r \<Rightarrow> r)"

definition getNodeProperty :: "AXNode \<Rightarrow> string \<Rightarrow> jsval" where
  "getNodeProperty node propertyName =
     (let direct =
            (case map_of (members node) propertyName of
               Some f \<Rightarrow> if truthy f then coalesce (member_value f) f else JUndefined
             | None \<Rightarrow> JUndefined)
      in case properties node of
           Some ps \<Rightarrow>
             (case find (\<lambda>p. fst p = propertyName) ps of
                Some prop \<Rightarrow> coalesce (opt_member_value (snd prop)) (snd prop)
              | None \<Rightarrow> direct)
         | None \<Rightarrow> direct)"

definition CONTROL_ROLES :: "string list" where
  "CONTROL_ROLES =
     [''button'', ''checkbox'', ''combobox'', ''listbox'', ''menu'', ''menubar'', ''menuitem'',
      ''menuitemcheckbox'', ''menuitemradio'', ''option'', ''progressbar'', ''radio'',
      ''scrollbar'', ''searchbox'', ''slider'', ''spinbutton'', ''switch'', ''tab'',
      ''tablist'', ''textbox'', ''tree'', ''treeitem'', ''link'', ''gridcell'']"

definition LANDMARK_ROLES :: "string list" where
  "LANDMARK_ROLES =
     [''banner'', ''complementary'', ''contentinfo'', ''form'', ''main'', ''navigation'',
      ''region'', ''search'']"

definition LEAF_ROLES :: "string list" where
  "LEAF_ROLES =
     [''textbox'', ''searchbox'', ''image'', ''progressbar'', ''slider'', ''separator'',
      ''meter'', ''scrollbar'', ''spinbutton'']"

text \<open>
  A JavaScript \<^verbatim>\<open>Map\<close> is an association list: \<open>AList.update\<close> overwrites the value of a
  key that is present and appends a new key at the end, which is the iteration order of a
  \<^verbatim>\<open>Map\<close>; \<open>map_of\<close> is \<^verbatim>\<open>get\<close>.
\<close>

type_synonym nodeMap = "(string \<times> AXNode) list"

type_synonym childrenMap = "(string \<times> string list) list"

definition build_nodeMap :: "AXNode list \<Rightarrow> nodeMap" where
  "build_nodeMap nodes = foldl (\<lambda>m node. AList.update (nodeId node) node m) [] nodes"

definition build_childrenMap :: "AXNode list \<Rightarrow> childrenMap" where
  "build_childrenMap nodes =
     foldl (\<lambda>m node. case childIds node of
                        Some cs \<Rightarrow> AList.update (nodeId node) cs m
                      | None \<Rightarrow> m) [] nodes"

text \<open>\<^verbatim>\<open>childrenMap.get(id) || []\<close>\<close>

definition children_of :: "childrenMap \<Rightarrow> string \<Rightarrow> string list" where
  "children_of cm nid = (case map_of cm nid of Some cs \<Rightarrow> cs | None \<Rightarrow> [])"

definition isLeafNode :: "AXNode \<Rightarrow> nodeMap \<Rightarrow> childrenMap \<Rightarrow> bool" where
  "isLeafNode node nm cm =
     (if role_value node \<in> set LEAF_ROLES then True
      else if children_of cm (nodeId node) = [] then True
      else list_all
             (\<lambda>childId. case map_of nm childId of
                           None \<Rightarrow> True
                         | Some child \<Rightarrow>
                             ignored child \<or> role_value child = ''StaticText'' \<or>
                             role_value child = ''text'' \<or> role_value child = ''none'')
             (children_of cm (nodeId node)))"

definition isInterestingNode :: "AXNode \<Rightarrow> nodeMap \<Rightarrow> childrenMap \<Rightarrow> bool \<Rightarrow> bool" where
  "isInterestingNode node nm cm insideControl =
     (let r = role_value node;
          name = getNodeProperty node ''name'';
          description = getNodeProperty node ''description'';
          focusable = getNodeProperty node ''focusable'';
          editable = getNodeProperty node ''editable'';
          modal = getNodeProperty node ''modal'';
          live = getNodeProperty node ''live''
      in if r = ''Ignored'' \<or> ignored node then False
         else if r \<in> set LANDMARK_ROLES then True
         else if r \<in> set CONTROL_ROLES then True
         else if truthy focusable \<or> truthy editable \<or> truthy modal \<or>
                 (truthy live \<and> \<not> strict_eq live (JStr ''off'')) then True
         else if r = ''heading'' \<and> truthy name then True
         else if insideControl \<and> \<not> truthy focusable then False
         else if isLeafNode node nm cm \<and> (truthy name \<or> truthy description) then True
         else if r = ''image'' \<and> truthy name then True
         else if (r = ''StaticText'' \<or> r = ''text'') \<and> truthy name then True
         else False)"

text \<open>
  The parent lookup handed to \<^verbatim>\<open>markAncestorsInteresting\<close>: the first entry of
  \<^verbatim>\<open>childrenMap\<close>, in iteration order, whose children include the id.
\<close>

definition getParent :: "childrenMap \<Rightarrow> string \<Rightarrow> string option" where
  "getParent cm nid = map_option fst (find (\<lambda>entry. nid \<in> set (snd entry)) cm)"

text \<open>
  \<^verbatim>\<open>markAncestorsInteresting\<close>: the loop stops at an absent (or empty) parent id and at a
  parent that is already marked; each other turn marks one more key of \<^verbatim>\<open>childrenMap\<close>.
\<close>

function markAncestorsInteresting :: "string \<Rightarrow> childrenMap \<Rightarrow> string set \<Rightarrow> string set" where
  "markAncestorsInteresting nid cm interestingIds =
     (case getParent cm nid of
        None \<Rightarrow> interestingIds
      | Some parentId \<Rightarrow>
          if parentId = [] then interestingIds
          else if parentId \<in> interestingIds then interestingIds
          else markAncestorsInteresting parentId cm (insert parentId interestingIds))"
  by pat_completeness auto

lemma getParent_key: "getParent cm nid = Some p \<Longrightarrow> p \<in> fst ` set cm"
  by (induction cm) (auto simp: getParent_def split: if_splits)

termination markAncestorsInteresting
proof (relation "measure (\<lambda>(nid, cm, ids). card (fst ` set cm - ids))")
  show "wf (measure (\<lambda>(nid, cm, ids). card (fst ` set cm - ids)))"
    by simp
next
  fix nid :: string and cm :: childrenMap and interestingIds :: "string set" and x2 :: string
  assume p: "getParent cm nid = Some x2" and n: "x2 \<notin> interestingIds"
  have mem: "x2 \<in> fst ` set cm - interestingIds"
    using getParent_key [OF p] n by simp
  have fin: "finite (fst ` set cm - interestingIds)"
    by simp
  have "fst ` set cm - insert x2 interestingIds = (fst ` set cm - interestingIds) - {x2}"
    by auto
  then have "card (fst ` set cm - insert x2 interestingIds) < card (fst ` set cm - interestingIds)"
    using card_Diff1_less [OF fin mem] by simp
  then show "((x2, cm, insert x2 interestingIds), (nid, cm, interestingIds))
             \<in> measure (\<lambda>(nid, cm, ids). card (fst ` set cm - ids))"
    by simp
qed

declare markAncestorsInteresting.simps [simp del]

text \<open>
  \<^verbatim>\<open>collectInterestingNodes\<close> recurses along \<^verbatim>\<open>childIds\<close>, which are data: on a cyclic node
  list the source recurses until the call stack overflows. The first argument bounds the
  recursion depth, and \<open>None\<close> is that overflow. The second function is the \<^verbatim>\<open>for\<close> loop
  over the children, which threads the mutable set.
\<close>

fun collectInterestingNodes ::
  "nat \<Rightarrow> string \<Rightarrow> nodeMap \<Rightarrow> childrenMap \<Rightarrow> string set \<Rightarrow> bool \<Rightarrow> string set option"
and collectChildren ::
  "nat \<Rightarrow> string list \<Rightarrow> nodeMap \<Rightarrow> childrenMap \<Rightarrow> string set \<Rightarrow> bool \<Rightarrow> string set option"
where
  "collectInterestingNodes 0 nid nm cm interestingIds insideControl = None"
| "collectInterestingNodes (Suc fuel) nid nm cm interestingIds insideControl =
     (if nid = [] then Some interestingIds
      else case map_of nm nid of
        None \<Rightarrow> Some interestingIds
      | Some node \<Rightarrow>
          collectChildren fuel (children_of cm nid) nm cm
            (if isInterestingNode node nm cm insideControl
             then markAncestorsInteresting nid cm (insert nid interestingIds)
             else interestingIds)
            (insideControl \<or> role_value node \<in> set CONTROL_ROLES))"
| "collectChildren fuel [] nm cm interestingIds insideControl = Some interestingIds"
| "collectChildren fuel (childId # rest) nm cm interestingIds insideControl =
     (case collectInterestingNodes fuel childId nm cm interestingIds insideControl of
        None \<Rightarrow> None
      | Some ids \<Rightarrow> collectChildren fuel rest nm cm ids insideControl)"

text \<open>The copy of a kept node: \<^verbatim>\<open>childIds\<close> pruned to the kept ids, and deleted when empty.\<close>

definition pruneChildIds :: "string set \<Rightarrow> AXNode \<Rightarrow> AXNode" where
  "pruneChildIds interestingIds node =
     (case childIds node of
        None \<Rightarrow> node
      | Some cs \<Rightarrow>
          (let kept = filter (\<lambda>c. c \<in> interestingIds) cs
           in node\<lparr>childIds := (if kept = [] then None else Some kept)\<rparr>))"

definition filterInterestingNodes :: "nat \<Rightarrow> AXNode list \<Rightarrow> AXNode list option" where
  "filterInterestingNodes fuel nodes =
     (let nm = build_nodeMap nodes;
          cm = build_childrenMap nodes
      in case (case nodes of
                 [] \<Rightarrow> Some {}
               | first # _ \<Rightarrow> collectInterestingNodes fuel (nodeId first) nm cm {} False) of
           None \<Rightarrow> None
         | Some interestingIds \<Rightarrow>
             Some (map (pruneChildIds interestingIds)
                     (filter (\<lambda>node. nodeId node \<in> interestingIds) nodes)))"

subsection \<open>Text rendering\<close>

definition dquote :: char where
  "dquote = CHR 0x22"

definition newline :: char where
  "newline = CHR 0x0A"

text \<open>\<^verbatim>\<open>xs.join(sep)\<close>\<close>

fun join :: "string \<Rightarrow> string list \<Rightarrow> string" where
  "join sep [] = []"
| "join sep [x] = x"
| "join sep (x # y # ys) = x @ sep @ join sep (y # ys)"

text \<open>\<^verbatim>\<open>'  '.repeat(depth)\<close>\<close>

definition indent_of :: "nat \<Rightarrow> string" where
  "indent_of depth = concat (replicate depth ''  '')"

text \<open>The uid of a line: the \<^verbatim>\<open>backendDOMNodeId\<close> is tested by truthiness.\<close>

definition uid_of :: "AXNode \<Rightarrow> nat \<Rightarrow> string" where
  "uid_of node depth =
     (case backendDOMNodeId node of
        Some b \<Rightarrow> if b \<noteq> 0 then string_of_nat depth @ ''_'' @ string_of_int b else nodeId node
      | None \<Rightarrow> nodeId node)"

definition attrs_of :: "AXNode \<Rightarrow> string list" where
  "attrs_of node =
     (let name = getNodeProperty node ''name'';
          url = getNodeProperty node ''url'';
          val = getNodeProperty node ''value'';
          focusable = getNodeProperty node ''focusable'';
          focused = getNodeProperty node ''focused'';
          multiline = getNodeProperty node ''multiline'';
          checked = getNodeProperty node ''checked'';
          expanded = getNodeProperty node ''expanded'';
          selected = getNodeProperty node ''selected'';
          disabled = getNodeProperty node ''disabled'';
          required = getNodeProperty node ''required'';
          level = getNodeProperty node ''level''
      in (if truthy url then [''url='' @ [dquote] @ to_string url @ [dquote]] else []) @
         (if truthy focusable then [''focusable''] else []) @
         (if truthy focused then [''focused''] else []) @
         (if truthy multiline then [''multiline''] else []) @
         (if strict_eq checked (JStr ''true'') \<or> strict_eq checked (JBool True)
          then [''checked''] else []) @
         (if strict_eq checked (JStr ''mixed'') then [''checked=mixed''] else []) @
         (if strict_eq expanded (JBool True) then [''expanded''] else []) @
         (if strict_eq expanded (JBool False) then [''collapsed''] else []) @
         (if truthy selected then [''selected''] else []) @
         (if truthy disabled then [''disabled''] else []) @
         (if truthy required then [''required''] else []) @
         (if truthy level then [''level='' @ to_string level] else []) @
         (if \<not> strict_eq val JUndefined \<and> \<not> strict_eq val name
          then [''value='' @ [dquote] @ to_string val @ [dquote]] else []))"

text \<open>What follows the role on a line: the quoted name, then the attributes.\<close>

definition line_tail :: "AXNode \<Rightarrow> string" where
  "line_tail node =
     (let name = getNodeProperty node ''name'';
          attrs = attrs_of node
      in (if truthy name then '' '' @ [dquote] @ to_string name @ [dquote] else []) @
         (if attrs \<noteq> [] then '' '' @ join '' '' attrs else []))"

definition formatNodeLine :: "AXNode \<Rightarrow> nat \<Rightarrow> string option" where
  "formatNodeLine node depth =
     (if role_value node = ''Ignored'' \<or> ignored node then None
      else Some (indent_of depth @ ''uid='' @ uid_of node depth @ '' '' @ role_value node @
                 line_tail node))"

text \<open>
  \<^verbatim>\<open>buildCompressedTree\<close>, with the recursion depth bounded as above. A formatted line is
  never the empty string, so \<^verbatim>\<open>if (line)\<close> is the test for \<^verbatim>\<open>null\<close>.
\<close>

fun buildCompressedTree ::
  "nat \<Rightarrow> string \<Rightarrow> nat \<Rightarrow> nodeMap \<Rightarrow> childrenMap \<Rightarrow> string list \<Rightarrow> string list option"
and buildChildren ::
  "nat \<Rightarrow> string list \<Rightarrow> nat \<Rightarrow> nodeMap \<Rightarrow> childrenMap \<Rightarrow> string list \<Rightarrow> string list option"
where
  "buildCompressedTree 0 nid depth nm cm lines = None"
| "buildCompressedTree (Suc fuel) nid depth nm cm lines =
     (case map_of nm nid of
        None \<Rightarrow> Some lines
      | Some node \<Rightarrow>
          buildChildren fuel (children_of cm nid) (depth + 1) nm cm
            (case formatNodeLine node depth of
               Some line \<Rightarrow> lines @ [line]
             | None \<Rightarrow> lines))"
| "buildChildren fuel [] depth nm cm lines = Some lines"
| "buildChildren fuel (childId # rest) depth nm cm lines =
     (case buildCompressedTree fuel childId depth nm cm lines of
        None \<Rightarrow> None
      | Some lines' \<Rightarrow> buildChildren fuel rest depth nm cm lines')"

text \<open>
  \<^verbatim>\<open>compressAXTreeToText\<close>, split at its last statement: \<open>compressedLines\<close> is the
  \<^verbatim>\<open>lines\<close> array the traversal fills, and the text is \<^verbatim>\<open>lines.join('\n')\<close>.
\<close>

definition compressedLines :: "nat \<Rightarrow> AXNode list \<Rightarrow> string list option" where
  "compressedLines fuel nodes =
     (case nodes of
        [] \<Rightarrow> Some []
      | first # _ \<Rightarrow>
          (let nm = build_nodeMap nodes;
               cm = build_childrenMap nodes;
               rootId = nodeId first
           in if rootId \<noteq> [] then buildCompressedTree fuel rootId 0 nm cm [] else Some []))"

definition compressAXTreeToText :: "nat \<Rightarrow> AXNode list \<Rightarrow> string option" where
  "compressAXTreeToText fuel nodes = map_option (join [newline]) (compressedLines fuel nodes)"

subsection \<open>Depth of a node and the reading of a uid\<close>

text \<open>
  \<open>at_depth cm rid nid d\<close>: the node \<open>nid\<close> is reached from the first node \<open>rid\<close> by
  following \<open>d\<close> child links of \<open>cm\<close>, which is its depth in the traversal.
\<close>

inductive at_depth :: "childrenMap \<Rightarrow> string \<Rightarrow> string \<Rightarrow> nat \<Rightarrow> bool" for cm rid where
  at_root: "at_depth cm rid rid 0"
| at_child: "at_depth cm rid p d \<Longrightarrow> c \<in> set (children_of cm p) \<Longrightarrow> at_depth cm rid c (Suc d)"

definition emitted :: "nodeMap \<Rightarrow> childrenMap \<Rightarrow> string \<Rightarrow> string \<Rightarrow> bool" where
  "emitted nm cm rid l =
     (\<exists>nid node d. map_of nm nid = Some node \<and> at_depth cm rid nid d \<and>
                   formatNodeLine node d = Some l)"

text \<open>
  The reader of a line, as the tool descriptions of \<^verbatim>\<open>cloud-browser-mcp\<close> tell a client to
  read it (\<^verbatim>\<open>uid=depth_backendNodeId\<close>, the number after the underscore is the
  backendNodeId): skip the indent, expect \<^verbatim>\<open>uid=\<close>, take the uid up to the next space, and
  split it at the first underscore into a decimal depth and a decimal node id.
\<close>

definition is_digit :: "char \<Rightarrow> bool" where
  "is_digit c = (of_char (CHR ''0'') \<le> (of_char c :: nat) \<and> (of_char c :: nat) \<le> of_char (CHR ''9''))"

definition digit_val :: "char \<Rightarrow> nat" where
  "digit_val c = of_char c - 48"

definition nat_of_string :: "string \<Rightarrow> nat" where
  "nat_of_string s = foldl (\<lambda>a c. 10 * a + digit_val c) 0 s"

definition int_of_string :: "string \<Rightarrow> int" where
  "int_of_string s =
     (if s \<noteq> [] \<and> hd s = CHR ''-'' then - int (nat_of_string (tl s)) else int (nat_of_string s))"

definition is_int_literal :: "string \<Rightarrow> bool" where
  "is_int_literal s =
     (if s \<noteq> [] \<and> hd s = CHR ''-'' then tl s \<noteq> [] \<and> list_all is_digit (tl s)
      else s \<noteq> [] \<and> list_all is_digit s)"

definition leading_spaces :: "string \<Rightarrow> nat" where
  "leading_spaces l = length (takeWhile (\<lambda>c. c = CHR '' '') l)"

definition parse_uid :: "string \<Rightarrow> (nat \<times> int) option" where
  "parse_uid l =
     (let rest = dropWhile (\<lambda>c. c = CHR '' '') l
      in if take 4 rest = ''uid='' then
           (let u = takeWhile (\<lambda>c. c \<noteq> CHR '' '') (drop 4 rest);
                dpart = takeWhile (\<lambda>c. c \<noteq> CHR ''_'') u;
                bpart = drop (Suc (length dpart)) u
            in if dpart \<noteq> [] \<and> list_all is_digit dpart \<and> length dpart < length u \<and>
                  is_int_literal bpart
               then Some (nat_of_string dpart, int_of_string bpart)
               else None)
         else None)"

subsection \<open>Example node lists\<close>

text \<open>
  A page root with a link (backend node 6804) and an ignored generic child; a node whose
  \<^verbatim>\<open>backendDOMNodeId\<close> is 0; a named heading inside a button; a generic container between
  a link and a button.
\<close>

definition ex_root :: AXNode where
  "ex_root = \<lparr>nodeId = ''1'', role = Some ''RootWebArea'', ignored = False,
              childIds = Some [''2'', ''3''], backendDOMNodeId = Some 1,
              properties = Some [(''focusable'', JWrap (JBool True))],
              members = [(''name'', JWrap (JStr ''Home''))]\<rparr>"

definition ex_link :: AXNode where
  "ex_link = \<lparr>nodeId = ''2'', role = Some ''link'', ignored = False,
              childIds = None, backendDOMNodeId = Some 6804,
              properties = Some [(''focusable'', JWrap (JBool True))],
              members = [(''name'', JWrap (JStr ''VIP''))]\<rparr>"

definition ex_generic :: AXNode where
  "ex_generic = \<lparr>nodeId = ''3'', role = Some ''generic'', ignored = True,
              childIds = None, backendDOMNodeId = Some 7,
              properties = None, members = []\<rparr>"


definition cx_button :: AXNode where
  "cx_button = \<lparr>nodeId = ''b'', role = Some ''button'', ignored = False,
                childIds = Some [''h''], backendDOMNodeId = Some 10,
                properties = None, members = []\<rparr>"

definition cx_heading :: AXNode where
  "cx_heading = \<lparr>nodeId = ''h'', role = Some ''heading'', ignored = False,
                 childIds = None, backendDOMNodeId = Some 11,
                 properties = None, members = [(''name'', JWrap (JStr ''Title''))]\<rparr>"

definition cx_link :: AXNode where
  "cx_link = \<lparr>nodeId = ''l'', role = Some ''link'', ignored = False,
              childIds = Some [''g''], backendDOMNodeId = Some 20,
              properties = None, members = []\<rparr>"

definition cx_group :: AXNode where
  "cx_group = \<lparr>nodeId = ''g'', role = Some ''generic'', ignored = False,
               childIds = Some [''k''], backendDOMNodeId = Some 21,
               properties = None, members = []\<rparr>"

definition cx_inner :: AXNode where
  "cx_inner = \<lparr>nodeId = ''k'', role = Some ''button'', ignored = False,
               childIds = None, backendDOMNodeId = Some 22,
               properties = None, members = []\<rparr>"

section \<open>Properties of the compressor\<close>

subsection \<open>Decimal rendering and the uid reader\<close>

lemma digit_char_is_digit: "n < 10 \<Longrightarrow> is_digit (digit_char n)"
  by (simp add: digit_char_def is_digit_def)

lemma digit_char_eval:
  "digit_char 0 = CHR ''0''" "digit_char (Suc 0) = CHR ''1''" "digit_char 1 = CHR ''1''"
  "digit_char 2 = CHR ''2''" "digit_char 3 = CHR ''3''" "digit_char 4 = CHR ''4''"
  "digit_char 5 = CHR ''5''" "digit_char 6 = CHR ''6''" "digit_char 7 = CHR ''7''"
  "digit_char 8 = CHR ''8''" "digit_char 9 = CHR ''9''"
  by (simp_all add: digit_char_def char_of_def bit_0)

lemma digit_val_digit_char: "n < 10 \<Longrightarrow> digit_val (digit_char n) = n"
  by (simp add: digit_char_def digit_val_def)

lemma string_of_nat_digits: "list_all is_digit (string_of_nat n)"
proof (induction n rule: string_of_nat.induct)
  case (1 n)
  then show ?case
    by (subst string_of_nat.simps) (simp add: digit_char_is_digit)
qed

lemma string_of_nat_nonempty: "string_of_nat n \<noteq> []"
  by (subst string_of_nat.simps) simp

lemma nat_of_string_snoc: "nat_of_string (s @ [c]) = 10 * nat_of_string s + digit_val c"
  by (simp add: nat_of_string_def)

lemma nat_of_string_of_nat: "nat_of_string (string_of_nat n) = n"
proof (induction n rule: string_of_nat.induct)
  case (1 n)
  show ?case
  proof (cases "n < 10")
    case True
    then show ?thesis
      by (subst string_of_nat.simps) (simp add: nat_of_string_def digit_val_digit_char)
  next
    case False
    then have "nat_of_string (string_of_nat (n div 10)) = n div 10"
      using 1 by simp
    with False show ?thesis
      by (subst string_of_nat.simps) (simp add: nat_of_string_snoc digit_val_digit_char)
  qed
qed

lemma is_digit_not_minus: "is_digit c \<Longrightarrow> c \<noteq> CHR ''-'' \<and> c \<noteq> CHR ''_'' \<and> c \<noteq> CHR '' ''"
  by (auto simp: is_digit_def)

lemma hd_string_of_nat: "hd (string_of_nat n) \<noteq> CHR ''-''"
  using string_of_nat_digits [of n] string_of_nat_nonempty [of n] is_digit_not_minus
  by (cases "string_of_nat n") auto

lemma int_of_string_of_int: "int_of_string (string_of_int b) = b"
  by (simp add: int_of_string_def string_of_int_def nat_of_string_of_nat
                string_of_nat_nonempty hd_string_of_nat)

lemma is_int_literal_string_of_int: "is_int_literal (string_of_int b)"
  by (simp add: is_int_literal_def string_of_int_def string_of_nat_nonempty
                hd_string_of_nat string_of_nat_digits)

lemma string_of_int_chars: "c \<in> set (string_of_int b) \<Longrightarrow> c \<noteq> CHR '' '' \<and> c \<noteq> CHR ''_''"
  using string_of_nat_digits is_digit_not_minus
  by (auto simp: string_of_int_def list_all_iff split: if_splits)

lemma string_of_nat_chars: "c \<in> set (string_of_nat n) \<Longrightarrow> c \<noteq> CHR '' '' \<and> c \<noteq> CHR ''_''"
  using string_of_nat_digits [of n] is_digit_not_minus by (auto simp: list_all_iff)

lemma indent_of_spaces: "set (indent_of d) \<subseteq> {CHR '' ''}"
  by (induction d) (auto simp: indent_of_def)

lemma length_indent_of: "length (indent_of d) = 2 * d"
  by (induction d) (auto simp: indent_of_def)

lemma leading_spaces_line: "leading_spaces (indent_of d @ ''uid='' @ rest) = 2 * d"
proof -
  have "takeWhile (\<lambda>c. c = CHR '' '') (indent_of d @ ''uid='' @ rest) = indent_of d"
    using indent_of_spaces [of d] by (subst takeWhile_append2) auto
  then show ?thesis by (simp add: leading_spaces_def length_indent_of)
qed

lemma parse_uid_core:
  assumes u1: "takeWhile (\<lambda>c. c \<noteq> CHR ''_'') u = dp"
    and u2: "drop (Suc (length dp)) u = bp"
    and u3: "length dp < length u"
    and u4: "\<forall>c\<in>set u. c \<noteq> CHR '' ''"
    and d1: "dp \<noteq> []" and d2: "list_all is_digit dp" and b1: "is_int_literal bp"
  shows "parse_uid (indent_of d @ ''uid='' @ u @ '' '' @ rest)
         = Some (nat_of_string dp, int_of_string bp)"
proof -
  have a: "dropWhile (\<lambda>c. c = CHR '' '') (indent_of d @ ''uid='' @ u @ '' '' @ rest)
           = ''uid='' @ u @ '' '' @ rest"
    using indent_of_spaces [of d] by (subst dropWhile_append2) auto
  have b: "takeWhile (\<lambda>c. c \<noteq> CHR '' '') (u @ CHR '' '' # rest) = u"
    using u4 by (subst takeWhile_append2) auto
  show ?thesis
    unfolding parse_uid_def Let_def a
    by (simp add: b u1 u2 u3 d1 d2 b1)
qed

lemma parse_uid_line:
  "parse_uid (indent_of d @ ''uid='' @ (string_of_nat d @ ''_'' @ string_of_int b) @ '' '' @ rest) = Some (d, b)"
proof -
  let ?u = "string_of_nat d @ ''_'' @ string_of_int b"
  have u1: "takeWhile (\<lambda>c. c \<noteq> CHR ''_'') ?u = string_of_nat d"
    using string_of_nat_chars [of _ d] by (subst takeWhile_append2) auto
  have u2: "drop (Suc (length (string_of_nat d))) ?u = string_of_int b"
    by simp
  have u3: "length (string_of_nat d) < length ?u"
    by simp
  have u4: "\<forall>c\<in>set ?u. c \<noteq> CHR '' ''"
    using string_of_nat_chars [of _ d] string_of_int_chars [of _ b] by auto
  show ?thesis
    using parse_uid_core [OF u1 u2 u3 u4 string_of_nat_nonempty string_of_nat_digits
                             is_int_literal_string_of_int, of d rest]
    by (simp add: nat_of_string_of_nat int_of_string_of_int)
qed

subsection \<open>Lines of the traversal\<close>

lemma build_lines:
  "(buildCompressedTree fuel nid d nm cm ls = Some ls' \<longrightarrow> at_depth cm rid nid d \<longrightarrow>
      (\<exists>new. ls' = ls @ new \<and> (\<forall>l\<in>set new. emitted nm cm rid l)))"
  "(buildChildren fuel cs d nm cm ls = Some ls' \<longrightarrow> (\<forall>c\<in>set cs. at_depth cm rid c d) \<longrightarrow>
      (\<exists>new. ls' = ls @ new \<and> (\<forall>l\<in>set new. emitted nm cm rid l)))"
proof (induction fuel nid d nm cm ls and fuel cs d nm cm ls arbitrary: ls' and ls'
       rule: buildCompressedTree_buildChildren.induct)
  case (1 nid depth nm cm lines)
  show ?case by simp
next
  case (2 fuel nid depth nm cm lines)
  show ?case
  proof (intro impI)
    assume run: "buildCompressedTree (Suc fuel) nid depth nm cm lines = Some ls'"
      and dep: "at_depth cm rid nid depth"
    show "\<exists>new. ls' = lines @ new \<and> (\<forall>l\<in>set new. emitted nm cm rid l)"
    proof (cases "map_of nm nid")
      case None
      with run show ?thesis by simp
    next
      case (Some node)
      let ?ls1 = "case formatNodeLine node depth of Some line \<Rightarrow> lines @ [line] | None \<Rightarrow> lines"
      have kids: "\<forall>c\<in>set (children_of cm nid). at_depth cm rid c (depth + 1)"
        using dep by (auto intro: at_child)
      have r: "buildChildren fuel (children_of cm nid) (depth + 1) nm cm ?ls1 = Some ls'"
        using run Some by simp
      from "2.IH" [OF Some, of ls'] r kids
      obtain new where new: "ls' = ?ls1 @ new" "\<forall>l\<in>set new. emitted nm cm rid l"
        by blast
      show ?thesis
      proof (cases "formatNodeLine node depth")
        case None
        with new show ?thesis by auto
      next
        case (Some line)
        have "emitted nm cm rid line"
          unfolding emitted_def using \<open>map_of nm nid = Some node\<close> dep Some by blast
        with new Some show ?thesis by auto
      qed
    qed
  qed
next
  case (3 fuel depth nm cm lines)
  show ?case by simp
next
  case (4 fuel childId rest depth nm cm lines)
  show ?case
  proof (intro impI)
    assume run: "buildChildren fuel (childId # rest) depth nm cm lines = Some ls'"
      and dep: "\<forall>c\<in>set (childId # rest). at_depth cm rid c depth"
    from run obtain l1 where
      l1: "buildCompressedTree fuel childId depth nm cm lines = Some l1"
      and l2: "buildChildren fuel rest depth nm cm l1 = Some ls'"
      by (auto split: option.splits)
    from "4.IH"(1) [of l1] l1 dep
    obtain n1 where n1: "l1 = lines @ n1" "\<forall>l\<in>set n1. emitted nm cm rid l"
      by auto
    from "4.IH"(2) [OF l1, of ls'] l2 dep
    obtain n2 where n2: "ls' = l1 @ n2" "\<forall>l\<in>set n2. emitted nm cm rid l"
      by auto
    from n1 n2 show "\<exists>new. ls' = lines @ new \<and> (\<forall>l\<in>set new. emitted nm cm rid l)"
      by auto
  qed
qed

lemma formatNodeLine_shape:
  "formatNodeLine node d = Some l \<Longrightarrow>
   l = indent_of d @ ''uid='' @ uid_of node d @ '' '' @ (role_value node @ line_tail node)"
  by (auto simp: formatNodeLine_def split: if_splits)

subsection \<open>The example node lists, evaluated\<close>

lemma ex_ids [simp]: "nodeId ex_root = ''1''" "nodeId ex_link = ''2''" "nodeId ex_generic = ''3''"
  by (simp_all add: ex_root_def ex_link_def ex_generic_def)

lemma ex_children [simp]: "childIds ex_root = Some [''2'', ''3'']" "childIds ex_link = None" "childIds ex_generic = None"
  by (simp_all add: ex_root_def ex_link_def ex_generic_def)

lemma ex_nm: "build_nodeMap [ex_root, ex_link, ex_generic] = [(''1'', ex_root), (''2'', ex_link), (''3'', ex_generic)]"
  by (simp add: build_nodeMap_def)

lemma ex_cm: "build_childrenMap [ex_root, ex_link, ex_generic] = [(''1'', [''2'', ''3''])]"
  by (simp add: build_childrenMap_def)

lemma ex_fmt_root: "formatNodeLine ex_root 0 = Some (''uid=0_1 RootWebArea '' @ [dquote] @ ''Home'' @ [dquote] @ '' focusable'')"
  by (simp add: formatNodeLine_def role_value_def ex_root_def indent_of_def uid_of_def
      string_of_nat.simps string_of_int_def digit_char_eval line_tail_def attrs_of_def
      getNodeProperty_def coalesce_def opt_member_value_def)

lemma ex_fmt_link: "formatNodeLine ex_link (Suc 0) = Some (''  uid=1_6804 link '' @ [dquote] @ ''VIP'' @ [dquote] @ '' focusable'')"
  by (simp add: formatNodeLine_def role_value_def ex_link_def indent_of_def uid_of_def
      string_of_nat.simps string_of_int_def digit_char_eval line_tail_def attrs_of_def
      getNodeProperty_def coalesce_def opt_member_value_def)

lemma ex_fmt_generic: "formatNodeLine ex_generic d = None"
  by (simp add: formatNodeLine_def ex_generic_def)

lemma ex_lines: "compressedLines 3 [ex_root, ex_link, ex_generic] =
   Some [''uid=0_1 RootWebArea '' @ [dquote] @ ''Home'' @ [dquote] @ '' focusable'',
         ''  uid=1_6804 link '' @ [dquote] @ ''VIP'' @ [dquote] @ '' focusable'']"
  by (simp add: compressedLines_def ex_nm ex_cm eval_nat_numeral children_of_def
        ex_fmt_root ex_fmt_link ex_fmt_generic)


lemma cx_ids [simp]:
  "nodeId cx_button = ''b''" "nodeId cx_heading = ''h''"
  "nodeId cx_link = ''l''" "nodeId cx_group = ''g''" "nodeId cx_inner = ''k''"
  "childIds cx_button = Some [''h'']" "childIds cx_heading = None"
  "childIds cx_link = Some [''g'']" "childIds cx_group = Some [''k'']" "childIds cx_inner = None"
  by (simp_all add: cx_button_def cx_heading_def cx_link_def cx_group_def cx_inner_def)

lemma cx_roles [simp]:
  "role_value cx_button = ''button''" "role_value cx_heading = ''heading''"
  "role_value cx_link = ''link''" "role_value cx_group = ''generic''" "role_value cx_inner = ''button''"
  by (simp_all add: role_value_def cx_button_def cx_heading_def cx_link_def cx_group_def cx_inner_def)

lemma cx_ignored [simp]:
  "ignored cx_button = False" "ignored cx_heading = False"
  "ignored cx_link = False" "ignored cx_group = False" "ignored cx_inner = False"
  by (simp_all add: cx_button_def cx_heading_def cx_link_def cx_group_def cx_inner_def)

lemma cx_heading_props:
  "getNodeProperty cx_heading ''focusable'' = JUndefined"
  "getNodeProperty cx_heading ''name'' = JStr ''Title''"
  by (simp_all add: getNodeProperty_def cx_heading_def coalesce_def)

lemma cx_group_props: "getNodeProperty cx_group p = JUndefined"
  by (simp add: getNodeProperty_def cx_group_def)

lemma cx_heading_interesting: "isInterestingNode cx_heading nm cm True"
  by (simp add: isInterestingNode_def Let_def cx_heading_props
        LANDMARK_ROLES_def CONTROL_ROLES_def)

lemma cx_button_interesting: "isInterestingNode cx_button nm cm ic" "isInterestingNode cx_inner nm cm ic"
   "isInterestingNode cx_link nm cm ic"
  by (simp_all add: isInterestingNode_def Let_def LANDMARK_ROLES_def CONTROL_ROLES_def)

lemma cx_group_not_interesting: "\<not> isInterestingNode cx_group nm cm True"
  by (simp add: isInterestingNode_def Let_def cx_group_props
        LANDMARK_ROLES_def CONTROL_ROLES_def)

lemma cx_filter1:
  "map_option (map nodeId) (filterInterestingNodes 2 [cx_button, cx_heading]) = Some [''b'', ''h'']"
  by (simp add: filterInterestingNodes_def build_nodeMap_def build_childrenMap_def
        eval_nat_numeral children_of_def cx_heading_interesting cx_button_interesting
        markAncestorsInteresting.simps getParent_def CONTROL_ROLES_def pruneChildIds_def)

lemma cx_filter2:
  "map_option (map nodeId) (filterInterestingNodes 3 [cx_link, cx_group, cx_inner])
   = Some [''l'', ''g'', ''k'']"
  by (simp add: filterInterestingNodes_def build_nodeMap_def build_childrenMap_def
        eval_nat_numeral children_of_def cx_group_not_interesting cx_button_interesting
        markAncestorsInteresting.simps getParent_def CONTROL_ROLES_def pruneChildIds_def)

subsection \<open>Claims about the compressor\<close>

text \<open>
  With \<^verbatim>\<open>insideControl\<close> true and a node that is not focusable, \<^verbatim>\<open>isInterestingNode\<close>
  answers by the tests that come before the inside-a-control test.
\<close>

lemma isInterestingNode_inside_control:
  assumes "\<not> truthy (getNodeProperty node ''focusable'')"
  shows "isInterestingNode node nm cm True \<longleftrightarrow>
           \<not> (role_value node = ''Ignored'' \<or> ignored node) \<and>
           (role_value node \<in> set LANDMARK_ROLES \<or> role_value node \<in> set CONTROL_ROLES \<or>
            truthy (getNodeProperty node ''editable'') \<or>
            truthy (getNodeProperty node ''modal'') \<or>
            (truthy (getNodeProperty node ''live'') \<and>
             \<not> strict_eq (getNodeProperty node ''live'') (JStr ''off'')) \<or>
            (role_value node = ''heading'' \<and> truthy (getNodeProperty node ''name'')))"
  using assms unfolding isInterestingNode_def Let_def by auto

subsection \<open>What the traversal keeps\<close>

text \<open>
  The paths of the traversal: a list of node ids is a path when each id but the last is
  non-empty and in \<^verbatim>\<open>nodeMap\<close>, and each next id is among the children of the one before.
  \<^verbatim>\<open>collectInterestingNodes\<close>, started at the head of a path, calls itself on every id of
  it in turn.
\<close>

fun is_path :: "nodeMap \<Rightarrow> childrenMap \<Rightarrow> string list \<Rightarrow> bool" where
  "is_path nm cm [] = False"
| "is_path nm cm [x] = True"
| "is_path nm cm (x # y # rest) =
     (x \<noteq> [] \<and> map_of nm x \<noteq> None \<and> y \<in> set (children_of cm x) \<and> is_path nm cm (y # rest))"

text \<open>The node of this id has a control role.\<close>

definition control_node :: "nodeMap \<Rightarrow> string \<Rightarrow> bool" where
  "control_node nm nid =
     (case map_of nm nid of Some node \<Rightarrow> role_value node \<in> set CONTROL_ROLES | None \<Rightarrow> False)"

text \<open>
  The value of \<^verbatim>\<open>insideControl\<close> with which the last id of a path is reached, when the
  first is reached with the given value: the flag is set below every control.
\<close>

fun flagAt :: "nodeMap \<Rightarrow> bool \<Rightarrow> string list \<Rightarrow> bool" where
  "flagAt nm insideControl [] = insideControl"
| "flagAt nm insideControl [x] = insideControl"
| "flagAt nm insideControl (x # y # rest) =
     flagAt nm (insideControl \<or> control_node nm x) (y # rest)"

text \<open>The ids that the parent lookup of \<^verbatim>\<open>markAncestorsInteresting\<close> gives from an id, one step after the other.\<close>

inductive above :: "childrenMap \<Rightarrow> string \<Rightarrow> string \<Rightarrow> bool" for cm where
  parent: "getParent cm nid = Some p \<Longrightarrow> p \<noteq> [] \<Longrightarrow> above cm p nid"
| further: "getParent cm nid = Some p \<Longrightarrow> p \<noteq> [] \<Longrightarrow> above cm a p \<Longrightarrow> above cm a nid"

text \<open>
  An id is collected by the traversal from \<open>nid\<close> when some path from \<open>nid\<close> ends in a node
  that \<^verbatim>\<open>isInterestingNode\<close> accepts with the flag of that path, and the id is that node
  or above it.
\<close>

definition collected :: "nodeMap \<Rightarrow> childrenMap \<Rightarrow> string \<Rightarrow> bool \<Rightarrow> string \<Rightarrow> bool" where
  "collected nm cm nid insideControl x =
     (\<exists>p node. is_path nm cm p \<and> hd p = nid \<and> last p \<noteq> [] \<and>
        map_of nm (last p) = Some node \<and>
        isInterestingNode node nm cm (flagAt nm insideControl p) \<and>
        (x = last p \<or> above cm x (last p)))"

text \<open>The flag at the end of a path says that a node above on the path has a control role.\<close>

lemma flagAt_controls:
  "flagAt nm ic p \<longleftrightarrow> ic \<or> (\<exists>a \<in> set (butlast p). control_node nm a)"
  by (induction nm ic p rule: flagAt.induct) auto

text \<open>Every id in the set that the traversal returns was in the set before or is collected.\<close>

lemma markAncestorsInteresting_upper:
  "x \<in> markAncestorsInteresting nid cm ids \<Longrightarrow> x \<in> ids \<or> above cm x nid"
proof (induction nid cm ids rule: markAncestorsInteresting.induct)
  case (1 nid cm ids)
  show ?case
  proof (cases "getParent cm nid")
    case None
    with "1.prems" show ?thesis by (simp add: markAncestorsInteresting.simps)
  next
    case (Some p)
    show ?thesis
    proof (cases "p = [] \<or> p \<in> ids")
      case True
      with Some "1.prems" show ?thesis
        by (subst (asm) markAncestorsInteresting.simps) (auto split: if_splits)
    next
      case False
      with Some "1.prems" have "x \<in> markAncestorsInteresting p cm (insert p ids)"
        by (simp add: markAncestorsInteresting.simps)
      with "1.IH" [OF Some] False have "x \<in> insert p ids \<or> above cm x p" by simp
      with Some False show ?thesis by (auto intro: above.intros)
    qed
  qed
qed

lemma collected_here:
  assumes "nid \<noteq> []" "map_of nm nid = Some node" "isInterestingNode node nm cm ic" "x = nid \<or> above cm x nid"
  shows "collected nm cm nid ic x"
  unfolding collected_def using assms by (intro exI [of _ "[nid]"]) simp

lemma is_path_nonempty: "is_path nm cm p \<Longrightarrow> p \<noteq> []"
  by (cases p) simp_all

lemma collected_below:
  assumes n: "nid \<noteq> []" "map_of nm nid = Some node" and c: "c \<in> set (children_of cm nid)"
    and f: "collected nm cm c (ic \<or> role_value node \<in> set CONTROL_ROLES) x"
  shows "collected nm cm nid ic x"
proof -
  from f obtain p n where p: "is_path nm cm p" "hd p = c" "map_of nm (last p) = Some n"
      "last p \<noteq> []"
      "isInterestingNode n nm cm (flagAt nm (ic \<or> role_value node \<in> set CONTROL_ROLES) p)"
      "x = last p \<or> above cm x (last p)"
    unfolding collected_def by blast
  from p(1) obtain y rest where q: "p = y # rest" by (cases p) simp_all
  with p(2) have y: "y = c" by simp
  have "is_path nm cm (nid # p)" using n c p(1) q y by simp
  moreover have "flagAt nm ic (nid # p) = flagAt nm (ic \<or> role_value node \<in> set CONTROL_ROLES) p"
    using q n by (simp add: control_node_def)
  moreover have "last (nid # p) = last p" using q by simp
  ultimately show ?thesis
    unfolding collected_def using p by (intro exI [of _ "nid # p"] exI [of _ n]) simp
qed

lemma collect_upper:
  "collectInterestingNodes fuel nid nm cm ids ic = Some ids' \<Longrightarrow> x \<in> ids' \<Longrightarrow>
     x \<in> ids \<or> collected nm cm nid ic x"
  "collectChildren fuel cs nm cm ids ic = Some ids' \<Longrightarrow> x \<in> ids' \<Longrightarrow>
     x \<in> ids \<or> (\<exists>c \<in> set cs. collected nm cm c ic x)"
proof (induction fuel nid nm cm ids ic and fuel cs nm cm ids ic arbitrary: ids' and ids'
       rule: collectInterestingNodes_collectChildren.induct)
  case (1 nid nm cm ids ic)
  then show ?case by simp
next
  case (2 fuel nid nm cm ids ic)
  show ?case
  proof (cases "nid = [] \<or> map_of nm nid = None")
    case True
    with "2.prems" show ?thesis by (auto split: if_splits)
  next
    case False
    then obtain node where n: "nid \<noteq> []" "map_of nm nid = Some node" by auto
    let ?ids1 = "if isInterestingNode node nm cm ic
                 then markAncestorsInteresting nid cm (insert nid ids) else ids"
    let ?ic1 = "ic \<or> role_value node \<in> set CONTROL_ROLES"
    from "2.prems" n have r: "collectChildren fuel (children_of cm nid) nm cm ?ids1 ?ic1 = Some ids'"
      by simp
    from "2.IH" [OF n r "2.prems"(2)]
    consider "x \<in> ?ids1" | c where "c \<in> set (children_of cm nid)" "collected nm cm c ?ic1 x"
      by blast
    then show ?thesis
    proof cases
      case 1
      show ?thesis
      proof (cases "isInterestingNode node nm cm ic")
        case True
        with 1 have "x \<in> insert nid ids \<or> above cm x nid"
          using markAncestorsInteresting_upper [of x nid cm "insert nid ids"] by simp
        with True n show ?thesis by (auto intro: collected_here)
      next
        case False
        with 1 show ?thesis by simp
      qed
    next
      case 2
      with n show ?thesis by (auto intro: collected_below)
    qed
  qed
next
  case (3 fuel nm cm ids ic)
  then show ?case by simp
next
  case (4 fuel childId rest nm cm ids ic)
  from "4.prems" obtain ids1 where
    a: "collectInterestingNodes fuel childId nm cm ids ic = Some ids1"
    and b: "collectChildren fuel rest nm cm ids1 ic = Some ids'"
    by (auto split: option.splits)
  from "4.IH"(2) [OF a b "4.prems"(2)]
  have "x \<in> ids1 \<or> (\<exists>c \<in> set rest. collected nm cm c ic x)" .
  moreover have "x \<in> ids1 \<Longrightarrow> x \<in> ids \<or> collected nm cm childId ic x"
    using "4.IH"(1) [OF a] by simp
  ultimately show ?case by auto
qed

text \<open>
  The converse needs that the set holds the parent of each of its members, which every
  run of \<^verbatim>\<open>markAncestorsInteresting\<close> keeps true: the loop stops at a marked parent, whose
  own ancestors are marked already.
\<close>

definition parent_closed :: "childrenMap \<Rightarrow> string set \<Rightarrow> bool" where
  "parent_closed cm ids = (\<forall>x p. x \<in> ids \<longrightarrow> getParent cm x = Some p \<longrightarrow> p \<noteq> [] \<longrightarrow> p \<in> ids)"

lemma markAncestorsInteresting_lower: "ids \<subseteq> markAncestorsInteresting nid cm ids"
proof (induction nid cm ids rule: markAncestorsInteresting.induct)
  case (1 nid cm ids)
  show ?case
  proof (cases "getParent cm nid")
    case None
    then show ?thesis by (simp add: markAncestorsInteresting.simps)
  next
    case (Some p)
    show ?thesis
    proof (cases "p = [] \<or> p \<in> ids")
      case True
      with Some show ?thesis by (subst markAncestorsInteresting.simps) auto
    next
      case False
      with Some have e: "markAncestorsInteresting nid cm ids = markAncestorsInteresting p cm (insert p ids)"
        by (subst markAncestorsInteresting.simps) simp
      from "1.IH" [OF Some] False have "insert p ids \<subseteq> markAncestorsInteresting p cm (insert p ids)"
        by simp
      with e show ?thesis by auto
    qed
  qed
qed

lemma markAncestorsInteresting_closed:
  "nid \<in> ids \<Longrightarrow>
   (\<forall>x p. x \<in> ids \<longrightarrow> x \<noteq> nid \<longrightarrow> getParent cm x = Some p \<longrightarrow> p \<noteq> [] \<longrightarrow> p \<in> ids) \<Longrightarrow>
   parent_closed cm (markAncestorsInteresting nid cm ids)"
proof (induction nid cm ids rule: markAncestorsInteresting.induct)
  case (1 nid cm ids)
  show ?case
  proof (cases "getParent cm nid")
    case None
    then have "markAncestorsInteresting nid cm ids = ids" by (simp add: markAncestorsInteresting.simps)
    with None "1.prems" show ?thesis unfolding parent_closed_def by (metis option.distinct(1))
  next
    case (Some p)
    show ?thesis
    proof (cases "p = [] \<or> p \<in> ids")
      case True
      with Some have "markAncestorsInteresting nid cm ids = ids"
        by (subst markAncestorsInteresting.simps) auto
      with Some True "1.prems" show ?thesis unfolding parent_closed_def by (metis option.inject)
    next
      case False
      with Some have e: "markAncestorsInteresting nid cm ids = markAncestorsInteresting p cm (insert p ids)"
        by (subst markAncestorsInteresting.simps) simp
      have "parent_closed cm (markAncestorsInteresting p cm (insert p ids))"
      proof (rule "1.IH" [OF Some])
        show "p \<noteq> []" using False by simp
        show "p \<notin> ids" using False by simp
        show "p \<in> insert p ids" by simp
        show "\<forall>x q. x \<in> insert p ids \<longrightarrow> x \<noteq> p \<longrightarrow> getParent cm x = Some q \<longrightarrow> q \<noteq> [] \<longrightarrow> q \<in> insert p ids"
          using "1.prems" Some by (metis insert_iff option.inject)
      qed
      with e show ?thesis by simp
    qed
  qed
qed

lemma parent_closed_above: "above cm a x \<Longrightarrow> parent_closed cm ids \<Longrightarrow> x \<in> ids \<Longrightarrow> a \<in> ids"
  by (induction rule: above.induct) (auto simp: parent_closed_def)

lemma parent_closed_mark:
  assumes "parent_closed cm ids"
  shows "parent_closed cm (markAncestorsInteresting nid cm (insert nid ids))"
  using assms by (intro markAncestorsInteresting_closed) (auto simp: parent_closed_def)

lemma collected_cases:
  assumes f: "collected nm cm nid ic x" and n: "map_of nm nid = Some node"
  shows "(nid \<noteq> [] \<and> isInterestingNode node nm cm ic \<and> (x = nid \<or> above cm x nid)) \<or>
         (nid \<noteq> [] \<and> (\<exists>c \<in> set (children_of cm nid).
             collected nm cm c (ic \<or> role_value node \<in> set CONTROL_ROLES) x))"
proof -
  from f obtain p n' where p: "is_path nm cm p" "hd p = nid" "last p \<noteq> []"
      "map_of nm (last p) = Some n'" "isInterestingNode n' nm cm (flagAt nm ic p)"
      "x = last p \<or> above cm x (last p)"
    unfolding collected_def by blast
  from p(1) obtain y rest where q: "p = y # rest" by (cases p) simp_all
  with p(2) have y: "y = nid" by simp
  show ?thesis
  proof (cases rest)
    case Nil
    with q y p n show ?thesis by simp
  next
    case (Cons c rest')
    with q y p(1) have c: "nid \<noteq> []" "c \<in> set (children_of cm nid)" "is_path nm cm (c # rest')"
      by simp_all
    have fl: "flagAt nm ic p = flagAt nm (ic \<or> role_value node \<in> set CONTROL_ROLES) (c # rest')"
      using q y Cons n by (simp add: control_node_def)
    have "collected nm cm c (ic \<or> role_value node \<in> set CONTROL_ROLES) x"
      unfolding collected_def
      using c p q y Cons fl by (intro exI [of _ "c # rest'"] exI [of _ n']) simp
    with c show ?thesis by blast
  qed
qed

lemma collected_absent:
  assumes f: "collected nm cm nid ic x" shows "nid \<noteq> [] \<and> map_of nm nid \<noteq> None"
proof -
  from f obtain p n' where p: "is_path nm cm p" "hd p = nid" "last p \<noteq> []"
      "map_of nm (last p) = Some n'"
    unfolding collected_def by blast
  from p(1) obtain y rest where q: "p = y # rest" by (cases p) simp_all
  with p show ?thesis by (cases rest) auto
qed

lemma collect_lower:
  "collectInterestingNodes fuel nid nm cm ids ic = Some ids' \<Longrightarrow> parent_closed cm ids \<Longrightarrow>
     ids \<subseteq> ids' \<and> parent_closed cm ids' \<and> (\<forall>x. collected nm cm nid ic x \<longrightarrow> x \<in> ids')"
  "collectChildren fuel cs nm cm ids ic = Some ids' \<Longrightarrow> parent_closed cm ids \<Longrightarrow>
     ids \<subseteq> ids' \<and> parent_closed cm ids' \<and> (\<forall>x. \<forall>c \<in> set cs. collected nm cm c ic x \<longrightarrow> x \<in> ids')"
proof (induction fuel nid nm cm ids ic and fuel cs nm cm ids ic arbitrary: ids' and ids'
       rule: collectInterestingNodes_collectChildren.induct)
  case (1 nid nm cm ids ic)
  then show ?case by simp
next
  case (2 fuel nid nm cm ids ic)
  show ?case
  proof (cases "nid = [] \<or> map_of nm nid = None")
    case True
    with "2.prems" have "ids' = ids" by (auto split: if_splits)
    with True "2.prems" show ?thesis using collected_absent [of nm cm nid ic] by blast
  next
    case False
    then obtain node where n: "nid \<noteq> []" "map_of nm nid = Some node" by auto
    let ?ids1 = "if isInterestingNode node nm cm ic
                 then markAncestorsInteresting nid cm (insert nid ids) else ids"
    let ?ic1 = "ic \<or> role_value node \<in> set CONTROL_ROLES"
    from "2.prems" n have r: "collectChildren fuel (children_of cm nid) nm cm ?ids1 ?ic1 = Some ids'"
      by simp
    have c1: "parent_closed cm ?ids1" using "2.prems"(2) by (simp add: parent_closed_mark)
    have s1: "ids \<subseteq> ?ids1"
      using markAncestorsInteresting_lower [of "insert nid ids" nid cm] by auto
    from "2.IH" [OF n r c1]
    have ih: "?ids1 \<subseteq> ids'" "parent_closed cm ids'"
      "\<And>x c. c \<in> set (children_of cm nid) \<Longrightarrow> collected nm cm c ?ic1 x \<Longrightarrow> x \<in> ids'"
      by blast+
    have "x \<in> ids'" if f: "collected nm cm nid ic x" for x
    proof -
      from collected_cases [OF f n(2)]
      consider "isInterestingNode node nm cm ic" "x = nid \<or> above cm x nid"
        | c where "c \<in> set (children_of cm nid)" "collected nm cm c ?ic1 x"
        by blast
      then show ?thesis
      proof cases
        case 1
        then have m: "?ids1 = markAncestorsInteresting nid cm (insert nid ids)" by simp
        have "nid \<in> ?ids1"
          using markAncestorsInteresting_lower [of "insert nid ids" nid cm] m by auto
        with 1(2) c1 have "x \<in> ?ids1" using parent_closed_above [of cm x nid ?ids1] by blast
        with ih(1) show ?thesis by blast
      next
        case 2
        then show ?thesis by (rule ih(3))
      qed
    qed
    with ih s1 show ?thesis by blast
  qed
next
  case (3 fuel nm cm ids ic)
  then show ?case by simp
next
  case (4 fuel childId rest nm cm ids ic)
  from "4.prems" obtain ids1 where
    a: "collectInterestingNodes fuel childId nm cm ids ic = Some ids1"
    and b: "collectChildren fuel rest nm cm ids1 ic = Some ids'"
    by (auto split: option.splits)
  from "4.IH"(1) [OF a "4.prems"(2)]
  have h1: "ids \<subseteq> ids1" "parent_closed cm ids1" "\<And>x. collected nm cm childId ic x \<Longrightarrow> x \<in> ids1"
    by blast+
  from "4.IH"(2) [OF a b h1(2)]
  have h2: "ids1 \<subseteq> ids'" "parent_closed cm ids'"
    "\<And>x c. c \<in> set rest \<Longrightarrow> collected nm cm c ic x \<Longrightarrow> x \<in> ids'"
    by blast+
  from h1 h2 show ?case by auto
qed

text \<open>The set returned from the empty set holds the collected ids and no others.\<close>

lemma collect_exact:
  assumes "collectInterestingNodes fuel rid nm cm {} ic = Some ids"
  shows "x \<in> ids \<longleftrightarrow> collected nm cm rid ic x"
  using collect_upper(1) [OF assms, of x] collect_lower(1) [OF assms]
  by (auto simp: parent_closed_def)

lemma collect_closed:
  assumes "collectInterestingNodes fuel rid nm cm {} ic = Some ids"
  shows "parent_closed cm ids"
  using collect_lower(1) [OF assms] by (simp add: parent_closed_def)

text \<open>\<^verbatim>\<open>filterInterestingNodes\<close> keeps the nodes of the list whose id is in that set.\<close>

lemma nodeId_pruneChildIds [simp]: "nodeId (pruneChildIds ids node) = nodeId node"
  by (simp add: pruneChildIds_def Let_def split: option.splits)

lemma filter_kept_ids:
  assumes "filterInterestingNodes fuel (first # others) = Some kept"
  shows "\<exists>ids. collectInterestingNodes fuel (nodeId first) (build_nodeMap (first # others))
                 (build_childrenMap (first # others)) {} False = Some ids \<and>
               map nodeId kept = filter (\<lambda>i. i \<in> ids) (map nodeId (first # others))"
proof -
  have m: "map nodeId (map (pruneChildIds ids) (filter (\<lambda>node. nodeId node \<in> ids) nodes)) =
           filter (\<lambda>i. i \<in> ids) (map nodeId nodes)" for ids nodes
    by (induction nodes) simp_all
  from assms obtain ids where
    "collectInterestingNodes fuel (nodeId first) (build_nodeMap (first # others))
       (build_childrenMap (first # others)) {} False = Some ids"
    "kept = map (pruneChildIds ids) (filter (\<lambda>node. nodeId node \<in> ids) (first # others))"
    by (auto simp: filterInterestingNodes_def Let_def split: option.splits)
  with m [of ids "first # others"] show ?thesis by simp
qed

text \<open>
  C4 (as amended). Let the traversal of the filtering pass return the set \<open>ids\<close>, and let
  \<open>x\<close> be the id of a node that is not focusable and that every path from the root
  reaches below a node with a control role. Then \<open>x\<close> is kept exactly when it is reached
  and its node is not ignored and has a landmark or control role, or is editable, modal,
  live (other than \<^verbatim>\<open>off\<close>), or a heading with a name (these tests of
  \<^verbatim>\<open>isInterestingNode\<close> come before the inside-a-control test), or when \<open>x\<close> is above a kept
  id. Leaf, image and static-text nodes are not kept for their own sake there.
\<close>

theorem inside_control_kept:
  assumes run: "collectInterestingNodes fuel rid nm cm {} False = Some ids"
    and node: "map_of nm x = Some node" "x \<noteq> []"
    and nf: "\<not> truthy (getNodeProperty node ''focusable'')"
    and inside: "\<forall>p. is_path nm cm p \<and> hd p = rid \<and> last p = x \<longrightarrow>
                   (\<exists>a \<in> set (butlast p). control_node nm a)"
  shows "x \<in> ids \<longleftrightarrow>
           ((\<exists>p. is_path nm cm p \<and> hd p = rid \<and> last p = x) \<and>
            \<not> (role_value node = ''Ignored'' \<or> ignored node) \<and>
            (role_value node \<in> set LANDMARK_ROLES \<or> role_value node \<in> set CONTROL_ROLES \<or>
             truthy (getNodeProperty node ''editable'') \<or>
             truthy (getNodeProperty node ''modal'') \<or>
             (truthy (getNodeProperty node ''live'') \<and>
              \<not> strict_eq (getNodeProperty node ''live'') (JStr ''off'')) \<or>
             (role_value node = ''heading'' \<and> truthy (getNodeProperty node ''name'')))) \<or>
           (\<exists>y \<in> ids. above cm x y)"
    (is "_ \<longleftrightarrow> (?reached \<and> ?early) \<or> ?below")
proof
  assume "x \<in> ids"
  then have "collected nm cm rid False x" by (simp add: collect_exact [OF run])
  then obtain p n where p: "is_path nm cm p" "hd p = rid" "last p \<noteq> []"
      "map_of nm (last p) = Some n" "isInterestingNode n nm cm (flagAt nm False p)"
      "x = last p \<or> above cm x (last p)"
    unfolding collected_def by blast
  from p(6) show "(?reached \<and> ?early) \<or> ?below"
  proof
    assume e: "x = last p"
    with p inside have "flagAt nm False p" by (simp add: flagAt_controls)
    with p(4,5) e node have "isInterestingNode node nm cm True" by simp
    with nf have ?early by (simp add: isInterestingNode_inside_control)
    moreover from p e have ?reached by blast
    ultimately show ?thesis by blast
  next
    assume a: "above cm x (last p)"
    have "collected nm cm rid False (last p)" unfolding collected_def using p by blast
    then have "last p \<in> ids" by (simp add: collect_exact [OF run])
    with a show ?thesis by blast
  qed
next
  assume "(?reached \<and> ?early) \<or> ?below"
  then show "x \<in> ids"
  proof
    assume r: "?reached \<and> ?early"
    then obtain p where p: "is_path nm cm p" "hd p = rid" "last p = x" by blast
    with inside have f: "flagAt nm False p" by (simp add: flagAt_controls)
    from r nf have "isInterestingNode node nm cm True" by (simp add: isInterestingNode_inside_control)
    with p f node have "collected nm cm rid False x" unfolding collected_def by auto
    then show ?thesis by (simp add: collect_exact [OF run])
  next
    assume ?below
    then obtain y where "y \<in> ids" "above cm x y" by blast
    then show ?thesis using parent_closed_above [OF _ collect_closed [OF run]] by blast
  qed
qed

text \<open>The link \<open>l\<close> with the generic child \<open>g\<close>, whose child is the button \<open>k\<close>.\<close>

lemma cx_maps:
  "build_nodeMap [cx_link, cx_group, cx_inner] = [(''l'', cx_link), (''g'', cx_group), (''k'', cx_inner)]"
  "build_childrenMap [cx_link, cx_group, cx_inner] = [(''l'', [''g'']), (''g'', [''k''])]"
  by (simp_all add: build_nodeMap_def build_childrenMap_def)

lemma cx_collect:
  "collectInterestingNodes 3 ''l'' [(''l'', cx_link), (''g'', cx_group), (''k'', cx_inner)]
     [(''l'', [''g'']), (''g'', [''k''])] {} False = Some {''g'', ''k'', ''l''}"
  by (simp add: eval_nat_numeral children_of_def cx_group_not_interesting cx_button_interesting
        markAncestorsInteresting.simps getParent_def CONTROL_ROLES_def)

lemma cx_chain:
  assumes "is_path [(''l'', cx_link), (''g'', cx_group), (''k'', cx_inner)]
             [(''l'', [''g'']), (''g'', [''k''])] p" "hd p = ''l''" "last p = ''g''"
  shows "p = [''l'', ''g'']"
proof -
  from assms(1) obtain a r1 where 1: "p = a # r1" by (cases p) simp_all
  with assms have a: "a = ''l''" by simp
  show ?thesis
  proof (cases r1)
    case Nil
    with 1 a assms show ?thesis by simp
  next
    case (Cons b r2)
    with 1 a assms(1) have b: "b = ''g''" by (simp add: children_of_def)
    show ?thesis
    proof (cases r2)
      case Nil
      with 1 a Cons b show ?thesis by simp
    next
      case c: (Cons c r3)
      with 1 a Cons b assms(1) have k: "c = ''k''" by (simp add: children_of_def)
      show ?thesis
      proof (cases r3)
        case Nil
        with 1 Cons c k assms(3) show ?thesis by simp
      next
        case d: (Cons d r4)
        with 1 a Cons b c k assms(1) show ?thesis by (simp add: children_of_def)
      qed
    qed
  qed
qed

text \<open>
  An instance: \<open>g\<close> is reached below the link only, is not focusable and passes none of the
  tests, and the theorem gives that it is kept because it is above a kept id.
\<close>

theorem inside_control_kept_witness:
  "collectInterestingNodes 3 ''l'' (build_nodeMap [cx_link, cx_group, cx_inner])
     (build_childrenMap [cx_link, cx_group, cx_inner]) {} False = Some {''g'', ''k'', ''l''} \<and>
   map_of (build_nodeMap [cx_link, cx_group, cx_inner]) ''g'' = Some cx_group \<and>
   \<not> truthy (getNodeProperty cx_group ''focusable'') \<and>
   \<not> (\<exists>p. is_path (build_nodeMap [cx_link, cx_group, cx_inner])
              (build_childrenMap [cx_link, cx_group, cx_inner]) p \<and>
            hd p = ''l'' \<and> last p = ''g'' \<and>
            \<not> (\<exists>a \<in> set (butlast p). control_node (build_nodeMap [cx_link, cx_group, cx_inner]) a)) \<and>
   role_value cx_group \<notin> set LANDMARK_ROLES \<and> role_value cx_group \<notin> set CONTROL_ROLES \<and>
   role_value cx_group \<noteq> ''heading'' \<and>
   \<not> truthy (getNodeProperty cx_group ''editable'') \<and>
   \<not> truthy (getNodeProperty cx_group ''modal'') \<and>
   \<not> truthy (getNodeProperty cx_group ''live'') \<and>
   (\<exists>y \<in> {''g'', ''k'', ''l''}. above (build_childrenMap [cx_link, cx_group, cx_inner]) ''g'' y)"
proof -
  let ?nm = "[(''l'', cx_link), (''g'', cx_group), (''k'', cx_inner)]"
  let ?cm = "[(''l'', [''g'']), (''g'', [''k''])]"
  have n: "map_of ?nm ''g'' = Some cx_group" "''g'' \<noteq> []" by simp_all
  have f: "\<not> truthy (getNodeProperty cx_group ''focusable'')" by (simp add: cx_group_props)
  have i: "\<forall>p. is_path ?nm ?cm p \<and> hd p = ''l'' \<and> last p = ''g'' \<longrightarrow>
             (\<exists>a \<in> set (butlast p). control_node ?nm a)"
  proof (intro allI impI)
    fix p
    assume "is_path ?nm ?cm p \<and> hd p = ''l'' \<and> last p = ''g''"
    then have "p = [''l'', ''g'']" using cx_chain by blast
    then show "\<exists>a \<in> set (butlast p). control_node ?nm a"
      by (simp add: control_node_def CONTROL_ROLES_def)
  qed
  have e: "role_value cx_group \<notin> set LANDMARK_ROLES" "role_value cx_group \<notin> set CONTROL_ROLES"
    "role_value cx_group \<noteq> ''heading''"
    "\<not> truthy (getNodeProperty cx_group ''editable'')"
    "\<not> truthy (getNodeProperty cx_group ''modal'')"
    "\<not> truthy (getNodeProperty cx_group ''live'')"
    by (simp_all add: cx_group_props LANDMARK_ROLES_def CONTROL_ROLES_def)
  from inside_control_kept [OF cx_collect n f i] e
  have "\<exists>y \<in> {''g'', ''k'', ''l''}. above ?cm ''g'' y" by simp
  with n f i e show ?thesis by (simp add: cx_maps cx_collect)
qed

text \<open>
  C4 as stated fails. The heading \<open>h\<close> is not focusable, its parent \<open>b\<close> is a button, and
  its own role is neither a landmark nor a control role, yet the filter keeps it: a named
  heading is interesting before the inside-a-control test is reached. The generic node \<open>g\<close>
  between the link \<open>l\<close> and the button \<open>k\<close> is not interesting by itself, yet the filter
  keeps it, as an ancestor of the interesting button.
\<close>

theorem inside_control_counterexample:
  "map_option (map nodeId) (filterInterestingNodes 2 [cx_button, cx_heading]) = Some [''b'', ''h''] \<and>
   role_value cx_button \<in> set CONTROL_ROLES \<and> childIds cx_button = Some [''h''] \<and>
   \<not> truthy (getNodeProperty cx_heading ''focusable'') \<and>
   role_value cx_heading \<notin> set LANDMARK_ROLES \<and> role_value cx_heading \<notin> set CONTROL_ROLES \<and>
   map_option (map nodeId) (filterInterestingNodes 3 [cx_link, cx_group, cx_inner])
     = Some [''l'', ''g'', ''k''] \<and>
   role_value cx_link \<in> set CONTROL_ROLES \<and> childIds cx_link = Some [''g''] \<and>
   \<not> truthy (getNodeProperty cx_group ''focusable'') \<and>
   role_value cx_group \<notin> set LANDMARK_ROLES \<and> role_value cx_group \<notin> set CONTROL_ROLES"
  by (simp add: cx_filter1 cx_filter2 cx_heading_props cx_group_props
        LANDMARK_ROLES_def CONTROL_ROLES_def)

text \<open>
  Every entry of the \<^verbatim>\<open>lines\<close> array is the line of a node of the list at the depth at
  which the traversal reached it; its indent is two spaces per unit of that depth; and when
  the node has a nonzero \<^verbatim>\<open>backendDOMNodeId\<close> (the case in which the uid is written
  \<^verbatim>\<open>depth_backendDOMNodeId\<close>), reading the uid back gives that depth and that node id.
\<close>

lemma compressed_line_emitted:
  assumes run: "compressedLines fuel nodes = Some ls" and mem: "l \<in> set ls"
  shows "\<exists>nid node d.
           map_of (build_nodeMap nodes) nid = Some node \<and>
           at_depth (build_childrenMap nodes) (nodeId (hd nodes)) nid d \<and>
           formatNodeLine node d = Some l \<and>
           leading_spaces l = 2 * d \<and>
           (\<forall>b. backendDOMNodeId node = Some b \<and> b \<noteq> 0 \<longrightarrow> parse_uid l = Some (d, b))"
proof -
  let ?nm = "build_nodeMap nodes" and ?cm = "build_childrenMap nodes"
  from run mem obtain first rest where nodes: "nodes = first # rest"
    by (cases nodes) (auto simp: compressedLines_def)
  let ?rid = "nodeId first"
  from run mem nodes have b: "buildCompressedTree fuel ?rid 0 ?nm ?cm [] = Some ls"
    by (auto simp: compressedLines_def Let_def split: if_splits)
  from build_lines(1) [of fuel ?rid 0 ?nm ?cm "[]" ls ?rid] b
  have "\<forall>l\<in>set ls. emitted ?nm ?cm ?rid l"
    by (auto intro: at_root)
  with mem obtain nid node d where e: "map_of ?nm nid = Some node" "at_depth ?cm ?rid nid d"
      "formatNodeLine node d = Some l"
    unfolding emitted_def by blast
  note shape = formatNodeLine_shape [OF e(3)]
  have ind: "leading_spaces l = 2 * d"
    by (subst shape) (rule leading_spaces_line)
  have "parse_uid l = Some (d, b)" if "backendDOMNodeId node = Some b" "b \<noteq> 0" for b
  proof -
    have "uid_of node d = string_of_nat d @ ''_'' @ string_of_int b"
      using that by (simp add: uid_of_def)
    then show ?thesis
      by (subst shape) (simp only: parse_uid_line)
  qed
  with e ind nodes show ?thesis
    by auto
qed

subsection \<open>Lines of the text\<close>

text \<open>\<^verbatim>\<open>text.split(c)\<close>: the lines of a text are \<open>split_on newline\<close> of it.\<close>

fun split_on :: "char \<Rightarrow> string \<Rightarrow> string list" where
  "split_on c [] = [[]]"
| "split_on c (x # xs) =
     (if x = c then [] # split_on c xs
      else (case split_on c xs of l # ls \<Rightarrow> (x # l) # ls | [] \<Rightarrow> [[x]]))"

text \<open>The split of a uid at its first underscore, which \<open>parse_uid\<close> applies to the uid of a line.\<close>

definition split_uid :: "string \<Rightarrow> (nat \<times> int) option" where
  "split_uid u =
     (let dpart = takeWhile (\<lambda>c. c \<noteq> CHR ''_'') u;
          bpart = drop (Suc (length dpart)) u
      in if dpart \<noteq> [] \<and> list_all is_digit dpart \<and> length dpart < length u \<and>
            is_int_literal bpart
         then Some (nat_of_string dpart, int_of_string bpart)
         else None)"

text \<open>
  None of the strings of a node that \<^verbatim>\<open>formatNodeLine\<close> copies into its line holds a line
  break: the node id, the role, and the name, url, level and value as a template literal
  inserts them.
\<close>

definition single_line :: "AXNode \<Rightarrow> bool" where
  "single_line node =
     (newline \<notin> set (nodeId node) \<and> newline \<notin> set (role_value node) \<and>
      newline \<notin> set (to_string (getNodeProperty node ''name'')) \<and>
      newline \<notin> set (to_string (getNodeProperty node ''url'')) \<and>
      newline \<notin> set (to_string (getNodeProperty node ''level'')) \<and>
      newline \<notin> set (to_string (getNodeProperty node ''value'')))"

lemma parse_uid_split:
  "parse_uid l =
     (if take 4 (dropWhile (\<lambda>c. c = CHR '' '') l) = ''uid=''
      then split_uid (takeWhile (\<lambda>c. c \<noteq> CHR '' '') (drop 4 (dropWhile (\<lambda>c. c = CHR '' '') l)))
      else None)"
  by (simp add: parse_uid_def split_uid_def Let_def)

lemma takeWhile_stop: "\<not> P y \<Longrightarrow> takeWhile P (xs @ y # ys) = takeWhile P xs"
  by (induction xs) simp_all

lemma parse_uid_raw:
  "parse_uid (indent_of d @ ''uid='' @ u @ '' '' @ rest) = split_uid (takeWhile (\<lambda>c. c \<noteq> CHR '' '') u)"
proof -
  have a: "dropWhile (\<lambda>c. c = CHR '' '') (indent_of d @ ''uid='' @ u @ '' '' @ rest)
           = ''uid='' @ u @ '' '' @ rest"
    using indent_of_spaces [of d] by (subst dropWhile_append2) auto
  show ?thesis
    unfolding parse_uid_split a by (simp add: takeWhile_stop)
qed

text \<open>Splitting the joined lines gives the lines back when none of them holds the separator.\<close>

lemma split_on_nonempty: "split_on c xs \<noteq> []"
  by (induction xs) (auto split: list.splits)

lemma split_on_plain: "c \<notin> set l \<Longrightarrow> split_on c (l @ c # rest) = l # split_on c rest"
  by (induction l) auto

lemma split_on_single: "c \<notin> set l \<Longrightarrow> split_on c l = [l]"
  by (induction l) auto

lemma split_on_join:
  "ls \<noteq> [] \<Longrightarrow> \<forall>l\<in>set ls. c \<notin> set l \<Longrightarrow> split_on c (join [c] ls) = ls"
proof (induction "[c]" ls rule: join.induct)
  case 1
  then show ?case by simp
next
  case (2 x)
  then show ?case by (simp add: split_on_single)
next
  case (3 x y ys)
  then show ?case by (simp add: split_on_plain)
qed

text \<open>The line of a node whose strings hold no line break holds none.\<close>

lemma newline_not_digit: "is_digit c \<Longrightarrow> c \<noteq> newline"
  by (auto simp: is_digit_def newline_def)

lemma string_of_nat_plain: "newline \<notin> set (string_of_nat n)"
  using string_of_nat_digits [of n] newline_not_digit by (auto simp: list_all_iff)

lemma string_of_int_plain: "newline \<notin> set (string_of_int b)"
  using string_of_nat_plain unfolding newline_def by (simp add: string_of_int_def)

lemma indent_of_plain: "newline \<notin> set (indent_of d)"
  using indent_of_spaces [of d] by (auto simp: newline_def)

lemma join_chars: "set (join sep xs) \<subseteq> set sep \<union> \<Union> (set ` set xs)"
  by (induction sep xs rule: join.induct) auto

lemma attrs_of_plain:
  assumes "single_line node" and "a \<in> set (attrs_of node)"
  shows "newline \<notin> set a"
  using assms
  by (auto simp: attrs_of_def Let_def single_line_def newline_def dquote_def split: if_splits)

lemma line_tail_plain:
  assumes "single_line node"
  shows "newline \<notin> set (line_tail node)"
proof -
  have "newline \<notin> set (join '' '' (attrs_of node))"
    using join_chars [of "'' ''" "attrs_of node"] attrs_of_plain [OF assms]
    by (auto simp: newline_def)
  with assms show ?thesis
    by (auto simp: line_tail_def Let_def single_line_def newline_def dquote_def)
qed

lemma formatNodeLine_plain:
  assumes "single_line node" and "formatNodeLine node d = Some l"
  shows "newline \<notin> set l"
proof -
  have "newline \<notin> set (uid_of node d)"
    using assms(1) string_of_nat_plain [of d] string_of_int_plain
    unfolding newline_def
    by (auto simp: uid_of_def single_line_def newline_def split: option.splits)
  with assms(1) line_tail_plain [OF assms(1)] indent_of_plain [of d] show ?thesis
    unfolding formatNodeLine_shape [OF assms(2)] newline_def
    by (auto simp: single_line_def newline_def)
qed

text \<open>Every node of \<^verbatim>\<open>nodeMap\<close> is a node of the list.\<close>

lemma map_of_update_fold:
  "map_of (foldl (\<lambda>m node. AList.update (nodeId node) node m) m0 nodes) nid = Some node \<Longrightarrow>
   node \<in> set nodes \<or> map_of m0 nid = Some node"
proof (induction nodes arbitrary: m0)
  case Nil
  then show ?case by simp
next
  case (Cons n rest)
  from Cons.IH [OF Cons.prems [simplified]]
  show ?case by (auto simp: update_conv' split: if_splits)
qed

lemma build_nodeMap_member:
  "map_of (build_nodeMap nodes) nid = Some node \<Longrightarrow> node \<in> set nodes"
  using map_of_update_fold [of "[]" nodes nid node] by (simp add: build_nodeMap_def)

text \<open>
  C5 (as amended). Let no node of the list hold a line break in its id, role, name, url,
  level or value, and let the raw id of every node without a nonzero \<^verbatim>\<open>backendDOMNodeId\<close>
  (up to its first space) not be of the form \<^verbatim>\<open>D_B\<close> itself. Then every line of the text
  that \<^verbatim>\<open>compressAXTreeToText\<close> returns whose uid reads as \<^verbatim>\<open>D_B\<close> is the line of a node
  of the list that the traversal reached at depth \<open>D\<close> and whose \<^verbatim>\<open>backendDOMNodeId\<close> is
  \<open>B\<close>, and its indent is two spaces per unit of \<open>D\<close>. The node list is any list, in
  particular the output of the filter.
\<close>

theorem compressed_text_roundtrip:
  assumes run: "compressAXTreeToText fuel nodes = Some text"
    and plain: "\<forall>node\<in>set nodes. single_line node"
    and raw: "\<forall>node\<in>set nodes.
                backendDOMNodeId node = None \<or> backendDOMNodeId node = Some 0 \<longrightarrow>
                split_uid (takeWhile (\<lambda>c. c \<noteq> CHR '' '') (nodeId node)) = None"
    and line: "l \<in> set (split_on newline text)"
    and uid: "parse_uid l = Some (D, B)"
  shows "\<exists>nid node.
           map_of (build_nodeMap nodes) nid = Some node \<and>
           at_depth (build_childrenMap nodes) (nodeId (hd nodes)) nid D \<and>
           formatNodeLine node D = Some l \<and>
           backendDOMNodeId node = Some B \<and> B \<noteq> 0 \<and>
           leading_spaces l = 2 * D"
proof -
  from run obtain ls where ls: "compressedLines fuel nodes = Some ls" "text = join [newline] ls"
    by (auto simp: compressAXTreeToText_def)
  have em: "\<exists>nid node d.
           map_of (build_nodeMap nodes) nid = Some node \<and>
           at_depth (build_childrenMap nodes) (nodeId (hd nodes)) nid d \<and>
           formatNodeLine node d = Some e \<and>
           leading_spaces e = 2 * d \<and>
           (\<forall>b. backendDOMNodeId node = Some b \<and> b \<noteq> 0 \<longrightarrow> parse_uid e = Some (d, b))"
    if "e \<in> set ls" for e
    using compressed_line_emitted [OF ls(1) that] .
  have pl: "newline \<notin> set e" if "e \<in> set ls" for e
  proof -
    from em [OF that] obtain nid node d where
      n: "map_of (build_nodeMap nodes) nid = Some node" "formatNodeLine node d = Some e"
      by blast
    from n(1) plain have s: "single_line node" by (auto dest: build_nodeMap_member)
    show ?thesis by (rule formatNodeLine_plain [OF s n(2)])
  qed
  have "parse_uid [] = None" by (simp add: parse_uid_def)
  with uid line ls(2) have ne: "ls \<noteq> []" by (cases ls) auto
  with pl ls(2) have "split_on newline text = ls" by (simp add: split_on_join)
  with line have mem: "l \<in> set ls" by simp
  from em [OF mem] obtain nid node d where
    n: "map_of (build_nodeMap nodes) nid = Some node"
       "at_depth (build_childrenMap nodes) (nodeId (hd nodes)) nid d"
       "formatNodeLine node d = Some l" "leading_spaces l = 2 * d"
       "\<forall>b. backendDOMNodeId node = Some b \<and> b \<noteq> 0 \<longrightarrow> parse_uid l = Some (d, b)"
    by blast
  show ?thesis
  proof (cases "backendDOMNodeId node = None \<or> backendDOMNodeId node = Some 0")
    case True
    then have u: "uid_of node d = nodeId node" by (auto simp: uid_of_def)
    from n(1) have "node \<in> set nodes" by (rule build_nodeMap_member)
    with raw True have "split_uid (takeWhile (\<lambda>c. c \<noteq> CHR '' '') (nodeId node)) = None" by blast
    then have "parse_uid l = None"
      by (subst formatNodeLine_shape [OF n(3)]) (simp only: u parse_uid_raw)
    with uid show ?thesis by simp
  next
    case False
    then obtain b where b: "backendDOMNodeId node = Some b" "b \<noteq> 0" by auto
    with n(5) uid have "d = D" "b = B" by auto
    with n b show ?thesis by blast
  qed
qed

text \<open>The page root with its link, evaluated.\<close>

lemma ex_single_line: "single_line ex_root" "single_line ex_link" "single_line ex_generic"
  by (simp_all add: single_line_def ex_root_def ex_link_def ex_generic_def role_value_def
        getNodeProperty_def coalesce_def newline_def)

lemma ex_backend:
  "backendDOMNodeId ex_root = Some 1" "backendDOMNodeId ex_link = Some 6804"
  "backendDOMNodeId ex_generic = Some 7"
  by (simp_all add: ex_root_def ex_link_def ex_generic_def)

lemma ex_text:
  "compressAXTreeToText 3 [ex_root, ex_link, ex_generic] =
     Some (join [newline]
       [''uid=0_1 RootWebArea '' @ [dquote] @ ''Home'' @ [dquote] @ '' focusable'',
        ''  uid=1_6804 link '' @ [dquote] @ ''VIP'' @ [dquote] @ '' focusable''])"
  using ex_lines by (simp only: compressAXTreeToText_def option.map)

text \<open>An instance: the second line of the text of the page root with its link reads as depth 1 and node 6804.\<close>

theorem compressed_text_roundtrip_witness:
  "compressAXTreeToText 3 [ex_root, ex_link, ex_generic] =
     Some (''uid=0_1 RootWebArea '' @ [dquote] @ ''Home'' @ [dquote] @ '' focusable'' @ [newline] @
           ''  uid=1_6804 link '' @ [dquote] @ ''VIP'' @ [dquote] @ '' focusable'') \<and>
   single_line ex_root \<and> single_line ex_link \<and> single_line ex_generic \<and>
   backendDOMNodeId ex_root = Some 1 \<and> backendDOMNodeId ex_link = Some 6804 \<and>
   backendDOMNodeId ex_generic = Some 7 \<and>
   split_on newline
     (''uid=0_1 RootWebArea '' @ [dquote] @ ''Home'' @ [dquote] @ '' focusable'' @ [newline] @
      ''  uid=1_6804 link '' @ [dquote] @ ''VIP'' @ [dquote] @ '' focusable'')
     = [''uid=0_1 RootWebArea '' @ [dquote] @ ''Home'' @ [dquote] @ '' focusable'',
        ''  uid=1_6804 link '' @ [dquote] @ ''VIP'' @ [dquote] @ '' focusable''] \<and>
   parse_uid (''  uid=1_6804 link '' @ [dquote] @ ''VIP'' @ [dquote] @ '' focusable'') = Some (1, 6804) \<and>
   (\<exists>nid node.
      map_of (build_nodeMap [ex_root, ex_link, ex_generic]) nid = Some node \<and>
      at_depth (build_childrenMap [ex_root, ex_link, ex_generic])
        (nodeId (hd [ex_root, ex_link, ex_generic])) nid 1 \<and>
      formatNodeLine node 1 =
        Some (''  uid=1_6804 link '' @ [dquote] @ ''VIP'' @ [dquote] @ '' focusable'') \<and>
      backendDOMNodeId node = Some 6804 \<and> (6804::int) \<noteq> 0 \<and>
      leading_spaces (''  uid=1_6804 link '' @ [dquote] @ ''VIP'' @ [dquote] @ '' focusable'') = 2 * 1)"
proof -
  let ?l1 = "''uid=0_1 RootWebArea '' @ [dquote] @ ''Home'' @ [dquote] @ '' focusable''"
  let ?l2 = "''  uid=1_6804 link '' @ [dquote] @ ''VIP'' @ [dquote] @ '' focusable''"
  have j: "join [newline] [?l1, ?l2] = ?l1 @ [newline] @ ?l2" by simp
  have p: "\<forall>node\<in>set [ex_root, ex_link, ex_generic]. single_line node"
    by (simp add: ex_single_line)
  have r: "\<forall>node\<in>set [ex_root, ex_link, ex_generic].
             backendDOMNodeId node = None \<or> backendDOMNodeId node = Some 0 \<longrightarrow>
             split_uid (takeWhile (\<lambda>c. c \<noteq> CHR '' '') (nodeId node)) = None"
    by (simp add: ex_backend)
  have s: "split_on newline (join [newline] [?l1, ?l2]) = [?l1, ?l2]"
    by (rule split_on_join) (simp_all add: newline_def dquote_def)
  then have m: "?l2 \<in> set (split_on newline (join [newline] [?l1, ?l2]))" by simp
  have "string_of_nat 1 = ''1''" "string_of_int 6804 = ''6804''"
    by (simp_all add: string_of_nat.simps string_of_int_def digit_char_eval)
  with parse_uid_line [of 1 6804 "''link '' @ [dquote] @ ''VIP'' @ [dquote] @ '' focusable''"]
  have u: "parse_uid ?l2 = Some (1, 6804)"
    by (simp add: indent_of_def)
  from compressed_text_roundtrip [OF ex_text p r m u] ex_text s u
  show ?thesis
    unfolding j by (simp add: ex_single_line ex_backend)
qed

text \<open>
  A button without \<^verbatim>\<open>backendDOMNodeId\<close> whose raw id is \<^verbatim>\<open>3_99\<close>, and a link with backend
  node 5 whose name holds a line break followed by text that looks like a line.
\<close>

definition cx_raw :: AXNode where
  "cx_raw = \<lparr>nodeId = ''3_99'', role = Some ''button'', ignored = False,
             childIds = None, backendDOMNodeId = None, properties = None, members = []\<rparr>"

definition cx_break :: AXNode where
  "cx_break = \<lparr>nodeId = ''1'', role = Some ''link'', ignored = False,
               childIds = None, backendDOMNodeId = Some 5, properties = None,
               members = [(''name'', JWrap (JStr (''x'' @ [newline] @ ''  uid=7_9 link'')))]\<rparr>"

lemma cx_raw_lines: "compressedLines 1 [cx_raw] = Some [''uid=3_99 button'']"
  by (simp add: compressedLines_def build_nodeMap_def build_childrenMap_def
        cx_raw_def formatNodeLine_def role_value_def indent_of_def uid_of_def line_tail_def
        attrs_of_def getNodeProperty_def children_of_def Let_def)

lemma cx_break_lines:
  "compressedLines 1 [cx_break] =
     Some [''uid=0_5 link '' @ [dquote] @ ''x'' @ [newline] @ ''  uid=7_9 link'' @ [dquote]]"
  by (simp add: compressedLines_def build_nodeMap_def build_childrenMap_def
        cx_break_def formatNodeLine_def role_value_def indent_of_def uid_of_def line_tail_def
        attrs_of_def getNodeProperty_def children_of_def Let_def coalesce_def
        string_of_nat.simps string_of_int_def digit_char_eval)

lemma cx_raw_text: "compressAXTreeToText 1 [cx_raw] = Some ''uid=3_99 button''"
  using cx_raw_lines by (simp add: compressAXTreeToText_def)

lemma cx_break_text:
  "compressAXTreeToText 1 [cx_break] =
     Some (''uid=0_5 link '' @ [dquote] @ ''x'' @ [newline] @ ''  uid=7_9 link'' @ [dquote])"
  using cx_break_lines by (simp add: compressAXTreeToText_def)

lemma digits_eval:
  "is_digit (CHR ''3'')" "is_digit (CHR ''7'')" "is_digit (CHR ''9'')"
  "digit_val (CHR ''3'') = 3" "digit_val (CHR ''7'') = 7" "digit_val (CHR ''9'') = 9"
  by (simp_all add: is_digit_def digit_val_def)

text \<open>
  C5 as stated fails. The only line of the first text has the uid \<^verbatim>\<open>3_99\<close>, which reads as
  depth 3 and node 99, while its node is at depth 0, has no \<^verbatim>\<open>backendDOMNodeId\<close> and is
  not indented. The second text has two lines though one node emitted one entry; the
  second line reads as depth 7 and node 9 with an indent of two spaces, and no node emitted
  it: the only node is at depth 0 with backend node 5.
\<close>

theorem uid_form_counterexample:
  "compressAXTreeToText 1 [cx_raw] = Some ''uid=3_99 button'' \<and>
   split_on newline ''uid=3_99 button'' = [''uid=3_99 button''] \<and>
   parse_uid ''uid=3_99 button'' = Some (3, 99) \<and>
   leading_spaces ''uid=3_99 button'' = 0 \<and>
   backendDOMNodeId cx_raw = None \<and>
   compressedLines 1 [cx_raw] = Some [''uid=3_99 button''] \<and>
   compressAXTreeToText 1 [cx_break] =
     Some (''uid=0_5 link '' @ [dquote] @ ''x'' @ [newline] @ ''  uid=7_9 link'' @ [dquote]) \<and>
   split_on newline (''uid=0_5 link '' @ [dquote] @ ''x'' @ [newline] @ ''  uid=7_9 link'' @ [dquote])
     = [''uid=0_5 link '' @ [dquote] @ ''x'', ''  uid=7_9 link'' @ [dquote]] \<and>
   parse_uid (''  uid=7_9 link'' @ [dquote]) = Some (7, 9) \<and>
   leading_spaces (''  uid=7_9 link'' @ [dquote]) = 2 \<and>
   backendDOMNodeId cx_break = Some 5 \<and>
   length (the (compressedLines 1 [cx_break])) = 1"
proof -
  have a: "split_on newline ''uid=3_99 button'' = [''uid=3_99 button'']"
    by (rule split_on_single) (simp add: newline_def)
  have b: "split_on newline (''uid=0_5 link '' @ [dquote] @ ''x'' @ [newline] @ ''  uid=7_9 link'' @ [dquote])
     = [''uid=0_5 link '' @ [dquote] @ ''x'', ''  uid=7_9 link'' @ [dquote]]"
    using split_on_plain [of newline "''uid=0_5 link '' @ [dquote] @ ''x''" "''  uid=7_9 link'' @ [dquote]"]
      split_on_single [of newline "''  uid=7_9 link'' @ [dquote]"]
    by (simp add: newline_def dquote_def)
  have c: "parse_uid ''uid=3_99 button'' = Some (3, 99)"
    "parse_uid (''  uid=7_9 link'' @ [dquote]) = Some (7, 9)"
    by (simp_all add: parse_uid_def Let_def is_int_literal_def nat_of_string_def int_of_string_def
          digits_eval dquote_def)
  have d: "leading_spaces ''uid=3_99 button'' = 0" "leading_spaces (''  uid=7_9 link'' @ [dquote]) = 2"
    by (simp_all add: leading_spaces_def)
  have e: "compressedLines 1 [cx_raw] = Some [''uid=3_99 button'']"
    "length (the (compressedLines 1 [cx_break])) = 1"
    using cx_raw_lines cx_break_lines by simp_all
  from a b c d e cx_raw_text cx_break_text show ?thesis
    by (simp add: cx_raw_def cx_break_def)
qed



section \<open>Browser session (\<^verbatim>\<open>BrowserSession.ts\<close>)\<close>

subsection \<open>Clients, CDP commands and the browser's replies\<close>

text \<open>
  A client is known to the session by its type. \<open>objectId\<close> is the identity of the client
  object: the sets of a session hold objects, and two clients made for one socket are two
  members.
\<close>

datatype ClientType = VIEWER | API

record Client =
  socketId :: string
  clientType :: ClientType
  objectId :: nat

record TargetInfo =
  info_targetId :: string
  info_type :: string
  info_url :: string
  info_title :: string

text \<open>
  Coordinates are JavaScript numbers: here exact rationals (the rounding of doubles is not
  modelled) and \<open>NaN\<close>, which arithmetic on \<^verbatim>\<open>undefined\<close> yields.
\<close>

datatype jsnum = Num rat | NaN

text \<open>
  The parameter objects of the commands sent to a page session: the constants
  \<^verbatim>\<open>DEFAULT_VIEWPORT\<close> and \<^verbatim>\<open>SCREENCAST_CONFIG\<close>, the expression of \<^verbatim>\<open>Runtime.evaluate\<close>, a key
  event (type, key, code, modifiers, virtual key code), a char event (text, key, code,
  modifiers), a mouse event (type, x, y, button, clickCount) and a backend node id.
\<close>

datatype cdp_params =
    NoParams
  | ViewportParams
  | ScreencastParams
  | EvaluateParams string
  | KeyEventParams string string string nat nat
  | CharEventParams string string string nat
  | MouseEventParams string jsnum jsnum string nat
  | BackendNodeParams int

text \<open>
  What is asked of the transport: opening it for a token, the \<^verbatim>\<open>Target\<close> domain calls made
  on the browser client, a command sent to a page session (session id, method, parameters),
  and \<^verbatim>\<open>close()\<close>.
\<close>

datatype cdp_call =
    OpenTransport string
  | SetDiscoverTargets
  | GetTargets
  | AttachToTarget string
  | DetachFromTarget string
  | CreateTarget string
  | SessionSend string string cdp_params
  | CloseTransport

text \<open>The reply of \<^verbatim>\<open>DOM.getBoxModel\<close> as \<^verbatim>\<open>click\<close> reads it: \<^verbatim>\<open>model.content\<close>, when present.\<close>

record BoxModel =
  content :: "rat list option"

text \<open>
  The browser, as the session sees it. The \<open>n\<close>-th request on a transport (\<open>n\<close> requests
  were made before it) is answered with an error message when \<open>fails env n call\<close> gives one,
  and otherwise with the payload the other members give for \<open>n\<close>: the target list, the
  session id of an attach, the target id of a created page, the URL of the frame tree, the
  value of an evaluation, the box model. Any behaviour of a browser in one run is such a
  function of the request number.
\<close>

record cdp_env =
  fails :: "nat \<Rightarrow> cdp_call \<Rightarrow> string option"
  targets :: "nat \<Rightarrow> TargetInfo list"
  attached :: "nat \<Rightarrow> string"
  created :: "nat \<Rightarrow> string"
  frameUrl :: "nat \<Rightarrow> string"
  evaluated :: "nat \<Rightarrow> jsval"
  boxModel :: "nat \<Rightarrow> BoxModel option option"

text \<open>The events a session hands to a client that are needed here.\<close>

datatype event =
    BrowserError string
  | BrowserConnected string "string option"
  | BrowserPageList "TargetInfo list" "string option"

text \<open>
  \<^verbatim>\<open>addClient\<close> and \<^verbatim>\<open>removeClient\<close> are synchronous and call the asynchronous
  \<^verbatim>\<open>tryStartScreencast\<close> and \<^verbatim>\<open>tryStopScreencast\<close> without awaiting them. Such a call runs up to
  its first \<^verbatim>\<open>await\<close>, which is the \<^verbatim>\<open>await this.send(...)\<close> of \<^verbatim>\<open>startScreencast\<close> or
  \<^verbatim>\<open>stopScreencast\<close>: the command has been handed to the transport, and the rest of the
  function (\<open>cont\<close>) runs when the reply is there. \<open>awaited\<close> is what the rest waits for: the
  reply to a request, or a promise that is already rejected.
\<close>

datatype cont = StartScreencastK | StopScreencastK

datatype awaited = Reply nat cdp_call | Rejected string

text \<open>
  The fields of the class. \<open>browserClient\<close> tells whether the CDP client is non-null. Three
  members are not fields of the class: \<open>sent\<close> records the requests handed to the transport,
  \<open>emitted\<close> the events handed to clients, and \<open>pending\<close> the suspended rests of calls
  that were not awaited.
\<close>

record BrowserSession =
  browserClient :: bool
  sessionId :: "string option"
  targetId :: "string option"
  currentUrl :: string
  token :: string
  viewerClients :: "Client list"
  apiClients :: "Client list"
  screencastStarted :: bool
  pressedModifiers :: "string set"
  sent :: "cdp_call list"
  emitted :: "(Client \<times> event) list"
  pending :: "(cont \<times> awaited) list"

definition new_session :: BrowserSession where
  "new_session = \<lparr>browserClient = False, sessionId = None, targetId = None, currentUrl = [],
                   token = [], viewerClients = [], apiClients = [], screencastStarted = False,
                   pressedModifiers = {}, sent = [], emitted = [], pending = []\<rparr>"

text \<open>A \<^verbatim>\<open>string | null\<close> tested by truthiness: null and the empty string are falsy.\<close>

definition present :: "string option \<Rightarrow> bool" where
  "present v = (case v of None \<Rightarrow> False | Some x \<Rightarrow> x \<noteq> [])"

text \<open>\<^verbatim>\<open>Set.add\<close> and \<^verbatim>\<open>Set.delete\<close>, on the list of members in insertion order.\<close>

definition set_add :: "'a \<Rightarrow> 'a list \<Rightarrow> 'a list" where
  "set_add x xs = (if x \<in> set xs then xs else xs @ [x])"

definition set_delete :: "'a \<Rightarrow> 'a list \<Rightarrow> 'a list" where
  "set_delete x xs = removeAll x xs"

text \<open>The error an awaited promise rejects with, if it does.\<close>

definition outcome :: "cdp_env \<Rightarrow> awaited \<Rightarrow> string option" where
  "outcome env a = (case a of Reply n c \<Rightarrow> fails env n c | Rejected e \<Rightarrow> Some e)"

text \<open>
  An asynchronous function whose awaits are taken one after the other is a function from
  the state to a result and a state; \<open>Inl e\<close> is a thrown \<^verbatim>\<open>Error\<close> with message \<open>e\<close>, and
  the state is the one at the throw. \<open>bind\<close> is \<^verbatim>\<open>await\<close> followed by the rest.
\<close>

definition bind ::
  "('s \<Rightarrow> (string + 'a) \<times> 's) \<Rightarrow> ('a \<Rightarrow> 's \<Rightarrow> (string + 'b) \<times> 's) \<Rightarrow> 's \<Rightarrow> (string + 'b) \<times> 's" where
  "bind m f s = (case m s of (Inl e, s') \<Rightarrow> (Inl e, s') | (Inr a, s') \<Rightarrow> f a s')"

text \<open>
  A request on the transport: handing it over (\<open>transport_begin\<close>), and handing it over and
  awaiting the reply (\<open>transport\<close>), whose result is the number of the request, under which
  the payload is found.
\<close>

definition transport_begin :: "cdp_call \<Rightarrow> BrowserSession \<Rightarrow> awaited \<times> BrowserSession" where
  "transport_begin c s = (Reply (length (sent s)) c, s\<lparr>sent := sent s @ [c]\<rparr>)"

definition transport :: "cdp_env \<Rightarrow> cdp_call \<Rightarrow> BrowserSession \<Rightarrow> (string + nat) \<times> BrowserSession" where
  "transport env c s =
     (case fails env (length (sent s)) c of
        Some e \<Rightarrow> (Inl e, s\<lparr>sent := sent s @ [c]\<rparr>)
      | None \<Rightarrow> (Inr (length (sent s)), s\<lparr>sent := sent s @ [c]\<rparr>))"

text \<open>
  \<^verbatim>\<open>send(method, params)\<close>: it throws when there is no client or no page session; otherwise
  \<^verbatim>\<open>sendToSession\<close> runs the promise executor at once, which hands the command over.
\<close>

definition send_begin :: "string \<Rightarrow> cdp_params \<Rightarrow> BrowserSession \<Rightarrow> awaited \<times> BrowserSession" where
  "send_begin method params s =
     (if \<not> browserClient s \<or> \<not> present (sessionId s) then (Rejected ''Browser not connected'', s)
      else transport_begin (SessionSend (the (sessionId s)) method params) s)"

definition send :: "cdp_env \<Rightarrow> string \<Rightarrow> cdp_params \<Rightarrow> BrowserSession \<Rightarrow> (string + nat) \<times> BrowserSession" where
  "send env method params s =
     (if \<not> browserClient s \<or> \<not> present (sessionId s) then (Inl ''Browser not connected'', s)
      else transport env (SessionSend (the (sessionId s)) method params) s)"

text \<open>\<^verbatim>\<open>emitToViewers\<close>: one event for each viewer, in the order of the set.\<close>

definition emitToViewers :: "event \<Rightarrow> BrowserSession \<Rightarrow> BrowserSession" where
  "emitToViewers ev s = s\<lparr>emitted := emitted s @ map (\<lambda>c. (c, ev)) (viewerClients s)\<rparr>"

text \<open>
  The rest of \<^verbatim>\<open>startScreencast\<close> and of \<^verbatim>\<open>stopScreencast\<close> after their \<^verbatim>\<open>await\<close>: the flag
  is written when the reply is a success; an error is logged, and broadcast for a start.
\<close>

fun resume :: "cont \<Rightarrow> string option \<Rightarrow> BrowserSession \<Rightarrow> BrowserSession" where
  "resume StartScreencastK None s = s\<lparr>screencastStarted := True\<rparr>"
| "resume StartScreencastK (Some e) s = emitToViewers (BrowserError (''Screencast error: '' @ e)) s"
| "resume StopScreencastK None s = s\<lparr>screencastStarted := False\<rparr>"
| "resume StopScreencastK (Some e) s = s"

text \<open>The parts of the four screencast functions before the \<^verbatim>\<open>await\<close>.\<close>

definition startScreencast_begin :: "BrowserSession \<Rightarrow> (cont \<times> awaited) option \<times> BrowserSession" where
  "startScreencast_begin s =
     (if \<not> present (sessionId s) \<or> screencastStarted s then (None, s)
      else (case send_begin ''Page.startScreencast'' ScreencastParams s of
              (a, s') \<Rightarrow> (Some (StartScreencastK, a), s')))"

definition stopScreencast_begin :: "BrowserSession \<Rightarrow> (cont \<times> awaited) option \<times> BrowserSession" where
  "stopScreencast_begin s =
     (if \<not> present (sessionId s) \<or> \<not> screencastStarted s then (None, s)
      else (case send_begin ''Page.stopScreencast'' NoParams s of
              (a, s') \<Rightarrow> (Some (StopScreencastK, a), s')))"

definition tryStartScreencast_begin :: "BrowserSession \<Rightarrow> (cont \<times> awaited) option \<times> BrowserSession" where
  "tryStartScreencast_begin s =
     (if screencastStarted s \<or> length (viewerClients s) = 0 then (None, s)
      else startScreencast_begin s)"

definition tryStopScreencast_begin :: "BrowserSession \<Rightarrow> (cont \<times> awaited) option \<times> BrowserSession" where
  "tryStopScreencast_begin s =
     (if \<not> screencastStarted s \<or> length (viewerClients s) > 0 then (None, s)
      else stopScreencast_begin s)"

text \<open>
  A call that is not awaited leaves its rest in \<open>pending\<close> (\<open>suspend\<close>); a call that is
  awaited runs its rest with the reply (\<open>await\<close>).
\<close>

definition suspend :: "(cont \<times> awaited) option \<times> BrowserSession \<Rightarrow> BrowserSession" where
  "suspend r = (case r of (None, s) \<Rightarrow> s | (Some p, s) \<Rightarrow> s\<lparr>pending := pending s @ [p]\<rparr>)"

definition await :: "cdp_env \<Rightarrow> (cont \<times> awaited) option \<times> BrowserSession \<Rightarrow> BrowserSession" where
  "await env r = (case r of (None, s) \<Rightarrow> s | (Some (k, a), s) \<Rightarrow> resume k (outcome env a) s)"

definition startScreencast :: "cdp_env \<Rightarrow> BrowserSession \<Rightarrow> BrowserSession" where
  "startScreencast env s = await env (startScreencast_begin s)"

subsection \<open>Clients and the screencast\<close>

definition addClient :: "Client \<Rightarrow> BrowserSession \<Rightarrow> BrowserSession" where
  "addClient client s =
     (if clientType client = VIEWER
      then suspend (tryStartScreencast_begin (s\<lparr>viewerClients := set_add client (viewerClients s)\<rparr>))
      else s\<lparr>apiClients := set_add client (apiClients s)\<rparr>)"

definition getClientCount :: "BrowserSession \<Rightarrow> nat" where
  "getClientCount s = length (viewerClients s) + length (apiClients s)"

definition removeClient :: "Client \<Rightarrow> BrowserSession \<Rightarrow> bool \<times> BrowserSession" where
  "removeClient client s =
     (let s' = (if clientType client = VIEWER
                then (let s1 = s\<lparr>viewerClients := set_delete client (viewerClients s)\<rparr>
                      in if length (viewerClients s1) = 0 then suspend (tryStopScreencast_begin s1)
                         else s1)
                else s\<lparr>apiClients := set_delete client (apiClients s)\<rparr>)
      in (getClientCount s' > 0, s'))"

text \<open>
  \<open>deliver env i\<close>: the awaited reply of the \<open>i\<close>-th suspended rest arrives and the rest
  runs. \<open>settle\<close> lets all of them run, oldest first.
\<close>

definition deliver :: "cdp_env \<Rightarrow> nat \<Rightarrow> BrowserSession \<Rightarrow> BrowserSession" where
  "deliver env i s =
     (if i < length (pending s)
      then (case pending s ! i of
              (k, a) \<Rightarrow> resume k (outcome env a)
                          (s\<lparr>pending := take i (pending s) @ drop (Suc i) (pending s)\<rparr>))
      else s)"

function settle :: "cdp_env \<Rightarrow> BrowserSession \<Rightarrow> BrowserSession" where
  "settle env s = (if pending s = [] then s else settle env (deliver env 0 s))"
  by pat_completeness auto

lemma pending_resume [simp]: "pending (resume k r s) = pending s"
  by (cases k; cases r) (simp_all add: emitToViewers_def)

termination settle
  by (relation "measure (\<lambda>(env, s). length (pending s))")
     (auto simp: deliver_def split: prod.splits)

declare settle.simps [simp del]

text \<open>
  \<^verbatim>\<open>connectToPage\<close>, every \<^verbatim>\<open>await\<close> taken in turn: attach, record the session, enable the
  domains, read the URL, set the viewport, and start the screencast when there is a viewer.
\<close>

definition connectToPage :: "cdp_env \<Rightarrow> string \<Rightarrow> BrowserSession \<Rightarrow> (string + unit) \<times> BrowserSession" where
  "connectToPage env tid s =
     (if \<not> browserClient s then (Inl ''Browser client not connected'', s)
      else
        bind (transport env (AttachToTarget tid))
          (\<lambda>n s1.
             bind (send env ''Page.enable'' NoParams)
               (\<lambda>_. bind (send env ''Runtime.enable'' NoParams)
                 (\<lambda>_. bind (send env ''Page.getFrameTree'' NoParams)
                   (\<lambda>m s2.
                      bind (send env ''Emulation.setDeviceMetricsOverride'' ViewportParams)
                        (\<lambda>_ s3. (Inr (), if length (viewerClients s3) > 0
                                            then startScreencast env s3 else s3))
                        (s2\<lparr>currentUrl := frameUrl env m\<rparr>))))
               (s1\<lparr>sessionId := Some (attached env n), targetId := Some tid\<rparr>))
          s)"

text \<open>
  Operations run to completion: the replies a call waits for, also those of the screencast
  commands it did not await, arrive before the next operation starts.
\<close>

datatype session_op = AddClient Client | RemoveClient Client | ConnectToPage string

fun step :: "cdp_env \<Rightarrow> BrowserSession \<Rightarrow> session_op \<Rightarrow> BrowserSession" where
  "step env s (AddClient c) = settle env (addClient c s)"
| "step env s (RemoveClient c) = settle env (snd (removeClient c s))"
| "step env s (ConnectToPage tid) = snd (connectToPage env tid s)"

definition run :: "cdp_env \<Rightarrow> session_op list \<Rightarrow> BrowserSession \<Rightarrow> BrowserSession" where
  "run env ops s = foldl (step env) s ops"

subsection \<open>The screencast flag and the viewer set\<close>

text \<open>
  Two conditions on the browser: \<^verbatim>\<open>Page.stopScreencast\<close> is never answered with an error,
  and an attach never returns an empty session id. \<open>quiet\<close> is the invariant of the
  completed operations.
\<close>

definition stop_ok :: "cdp_env \<Rightarrow> bool" where
  "stop_ok env = (\<forall>n sid. fails env n (SessionSend sid ''Page.stopScreencast'' NoParams) = None)"

definition attach_ok :: "cdp_env \<Rightarrow> bool" where
  "attach_ok env = (\<forall>n. attached env n \<noteq> [])"

definition quiet :: "BrowserSession \<Rightarrow> bool" where
  "quiet s = (pending s = [] \<and>
              (screencastStarted s \<longrightarrow> viewerClients s \<noteq> [] \<and> present (sessionId s) \<and> browserClient s))"

text \<open>What the helper functions leave unchanged.\<close>

lemma emitToViewers_fields [simp]:
  "viewerClients (emitToViewers ev s) = viewerClients s"
  "apiClients (emitToViewers ev s) = apiClients s"
  "sessionId (emitToViewers ev s) = sessionId s"
  "browserClient (emitToViewers ev s) = browserClient s"
  "sent (emitToViewers ev s) = sent s"
  "pending (emitToViewers ev s) = pending s"
  "screencastStarted (emitToViewers ev s) = screencastStarted s"
  "pressedModifiers (emitToViewers ev s) = pressedModifiers s"
  by (simp_all add: emitToViewers_def)

lemma resume_fields [simp]:
  "viewerClients (resume k r s) = viewerClients s"
  "apiClients (resume k r s) = apiClients s"
  "sessionId (resume k r s) = sessionId s"
  "browserClient (resume k r s) = browserClient s"
  "sent (resume k r s) = sent s"
  by (cases k; cases r; simp add: emitToViewers_def)+

lemma resume_started:
  "screencastStarted (resume k r s) =
     (if r = None then k = StartScreencastK else screencastStarted s)"
  by (cases k; cases r; simp add: emitToViewers_def)

lemma settle_none: "pending s = [] \<Longrightarrow> settle env s = s"
  by (subst settle.simps) simp

lemma settle_one:
  "pending s = [(k, a)] \<Longrightarrow> settle env s = resume k (outcome env a) (s\<lparr>pending := []\<rparr>)"
  by (subst settle.simps) (simp add: deliver_def settle_none)

lemma quiet_addClient: "quiet s \<Longrightarrow> quiet (settle env (addClient c s))"
  by (auto simp: quiet_def addClient_def suspend_def tryStartScreencast_begin_def
        startScreencast_begin_def send_begin_def transport_begin_def set_add_def
        settle_none settle_one outcome_def emitToViewers_def
        split: if_splits option.splits)

lemma quiet_removeClient:
  "stop_ok env \<Longrightarrow> quiet s \<Longrightarrow> quiet (settle env (snd (removeClient c s)))"
  by (auto simp: quiet_def removeClient_def Let_def suspend_def tryStopScreencast_begin_def
        stopScreencast_begin_def send_begin_def transport_begin_def set_delete_def
        settle_none settle_one outcome_def stop_ok_def
        split: if_splits option.splits)

lemma quiet_startScreencast:
  "pending s = [] \<Longrightarrow> viewerClients s \<noteq> [] \<Longrightarrow>
   (screencastStarted s \<longrightarrow> present (sessionId s) \<and> browserClient s) \<Longrightarrow>
   quiet (startScreencast env s)"
  by (auto simp: quiet_def startScreencast_def await_def startScreencast_begin_def send_begin_def
        transport_begin_def outcome_def resume_started split: if_splits option.splits)

text \<open>Inside \<^verbatim>\<open>connectToPage\<close>, after the attach: a page session is recorded.\<close>

definition halfway :: "BrowserSession \<Rightarrow> bool" where
  "halfway s = (pending s = [] \<and> present (sessionId s) \<and> browserClient s \<and>
               (screencastStarted s \<longrightarrow> viewerClients s \<noteq> []))"

lemma halfway_quiet: "halfway s \<Longrightarrow> quiet s"
  by (simp add: halfway_def quiet_def)

lemma halfway_send:
  "halfway s \<Longrightarrow> send env m p s = (r, s') \<Longrightarrow> halfway s'"
  by (auto simp: halfway_def send_def transport_def split: if_splits option.splits)

lemma halfway_send_bind:
  assumes h: "halfway s" and k: "\<And>n s1. halfway s1 \<Longrightarrow> quiet (snd (f n s1))"
  shows "quiet (snd (bind (send env m p) f s))"
proof (cases "send env m p s")
  case (Pair r s')
  then have h': "halfway s'" using halfway_send [OF h] by blast
  show ?thesis
  proof (cases r)
    case (Inl e)
    with Pair h' show ?thesis by (simp add: bind_def halfway_quiet)
  next
    case (Inr n)
    with Pair k [OF h', of n] show ?thesis by (simp add: bind_def)
  qed
qed

lemma quiet_connectToPage:
  assumes a: "attach_ok env" and q: "quiet s"
  shows "quiet (snd (connectToPage env tid s))"
proof (cases "browserClient s")
  case False
  with q show ?thesis by (simp add: connectToPage_def)
next
  case True
  let ?s0 = "s\<lparr>sent := sent s @ [AttachToTarget tid]\<rparr>"
  show ?thesis
  proof (cases "fails env (length (sent s)) (AttachToTarget tid)")
    case (Some e)
    with True q show ?thesis
      by (simp add: connectToPage_def bind_def transport_def quiet_def)
  next
    case None
    let ?s1 = "?s0\<lparr>sessionId := Some (attached env (length (sent s))), targetId := Some tid\<rparr>"
    have h1: "halfway ?s1"
      using a q True by (auto simp: halfway_def quiet_def attach_ok_def present_def)
    have last: "quiet (snd ((Inr ()) :: string + unit,
                  if length (viewerClients s3) > 0 then startScreencast env s3 else s3))"
      if "halfway s3" for s3
      using that by (auto simp: halfway_quiet intro!: quiet_startScreencast simp: halfway_def)
    have "quiet (snd (bind (send env ''Page.enable'' NoParams)
               (\<lambda>_. bind (send env ''Runtime.enable'' NoParams)
                 (\<lambda>_. bind (send env ''Page.getFrameTree'' NoParams)
                   (\<lambda>m s2.
                      bind (send env ''Emulation.setDeviceMetricsOverride'' ViewportParams)
                        (\<lambda>_ s3. (Inr (), if length (viewerClients s3) > 0
                                            then startScreencast env s3 else s3))
                        (s2\<lparr>currentUrl := frameUrl env m\<rparr>)))) ?s1))"
      apply (rule halfway_send_bind [OF h1])
      apply (rule halfway_send_bind, assumption)
      apply (rule halfway_send_bind, assumption)
      apply (rule halfway_send_bind)
       apply (simp add: halfway_def)
      apply (rule last, assumption)
      done
    with True None show ?thesis
      by (simp add: connectToPage_def bind_def transport_def)
  qed
qed

lemma quiet_step: "stop_ok env \<Longrightarrow> attach_ok env \<Longrightarrow> quiet s \<Longrightarrow> quiet (step env s op)"
  by (cases op) (simp_all add: quiet_addClient quiet_removeClient quiet_connectToPage)

lemma quiet_run: "stop_ok env \<Longrightarrow> attach_ok env \<Longrightarrow> quiet s \<Longrightarrow> quiet (run env ops s)"
  unfolding run_def by (induction ops arbitrary: s) (simp_all add: quiet_step)

lemma quiet_new: "quiet (new_session\<lparr>browserClient := b\<rparr>)"
  by (simp add: quiet_def new_session_def)

lemma removeClient_last_viewer:
  assumes q: "quiet s" and st: "screencastStarted s" and v: "clientType c = VIEWER"
    and e: "set_delete c (viewerClients s) = []"
  shows "sent (snd (removeClient c s)) =
           sent s @ [SessionSend (the (sessionId s)) ''Page.stopScreencast'' NoParams]"
    and "screencastStarted (snd (removeClient c s))"
    and "pending (snd (removeClient c s)) =
           [(StopScreencastK, Reply (length (sent s))
               (SessionSend (the (sessionId s)) ''Page.stopScreencast'' NoParams))]"
    and "viewerClients (snd (removeClient c s)) = []"
  using assms
  by (auto simp: quiet_def removeClient_def Let_def suspend_def tryStopScreencast_begin_def
        stopScreencast_begin_def send_begin_def transport_begin_def)

text \<open>
  A browser that answers every request with a success, one that rejects
  \<^verbatim>\<open>Page.stopScreencast\<close>, a viewer, and the session after \<^verbatim>\<open>connectToPage\<close> and the arrival
  of that viewer: attached to session \<^verbatim>\<open>S1\<close>, screencast running.
\<close>

definition env_ok :: cdp_env where
  "env_ok = \<lparr>fails = (\<lambda>n c. None), targets = (\<lambda>n. []), attached = (\<lambda>n. ''S1''),
             created = (\<lambda>n. ''T9''), frameUrl = (\<lambda>n. ''about:blank''),
             evaluated = (\<lambda>n. JStr ''visible''), boxModel = (\<lambda>n. None)\<rparr>"

definition env_stop_fails :: cdp_env where
  "env_stop_fails =
     env_ok\<lparr>fails := (\<lambda>n c. if c = SessionSend ''S1'' ''Page.stopScreencast'' NoParams
                             then Some ''Target closed'' else None)\<rparr>"

definition viewer1 :: Client where
  "viewer1 = \<lparr>socketId = ''sock1'', clientType = VIEWER, objectId = 1\<rparr>"

definition session1 :: BrowserSession where
  "session1 = run env_ok [ConnectToPage ''T1'', AddClient viewer1] (new_session\<lparr>browserClient := True\<rparr>)"

lemma env_ok_simps [simp]:
  "fails env_ok n c = None" "attached env_ok n = ''S1''" "frameUrl env_ok n = ''about:blank''"
  by (simp_all add: env_ok_def)

lemma viewer1_type [simp]: "clientType viewer1 = VIEWER"
  by (simp add: viewer1_def)

lemma session1_eq:
  "session1 = \<lparr>browserClient = True, sessionId = Some ''S1'', targetId = Some ''T1'',
      currentUrl = ''about:blank'', token = [], viewerClients = [viewer1], apiClients = [],
      screencastStarted = True, pressedModifiers = {},
      sent = [AttachToTarget ''T1'', SessionSend ''S1'' ''Page.enable'' NoParams,
              SessionSend ''S1'' ''Runtime.enable'' NoParams,
              SessionSend ''S1'' ''Page.getFrameTree'' NoParams,
              SessionSend ''S1'' ''Emulation.setDeviceMetricsOverride'' ViewportParams,
              SessionSend ''S1'' ''Page.startScreencast'' ScreencastParams],
      emitted = [], pending = []\<rparr>"
  by (simp add: session1_def run_def new_session_def connectToPage_def bind_def transport_def
        send_def present_def addClient_def set_add_def suspend_def tryStartScreencast_begin_def
        startScreencast_begin_def send_begin_def transport_begin_def settle_one outcome_def)

lemma session1_removed:
  "removeClient viewer1 session1 =
     (False, session1\<lparr>viewerClients := [],
        sent := sent session1 @ [SessionSend ''S1'' ''Page.stopScreencast'' NoParams],
        pending := [(StopScreencastK, Reply 6 (SessionSend ''S1'' ''Page.stopScreencast'' NoParams))]\<rparr>)"
  by (simp add: session1_eq removeClient_def Let_def set_delete_def suspend_def
        tryStopScreencast_begin_def stopScreencast_begin_def send_begin_def transport_begin_def
        present_def getClientCount_def)

text \<open>
  C1 (as amended). In every state reached from a new session (with or without an open
  transport) by \<^verbatim>\<open>addClient\<close>, \<^verbatim>\<open>removeClient\<close> and \<^verbatim>\<open>connectToPage\<close> operations run to
  completion, against a browser that never rejects \<^verbatim>\<open>Page.stopScreencast\<close> and never returns
  an empty session id, \<^verbatim>\<open>screencastStarted\<close> implies that there is a viewer. When
  \<^verbatim>\<open>removeClient\<close> removes the last viewer of such a state while the screencast runs,
  \<^verbatim>\<open>Page.stopScreencast\<close> has been sent on the transport when \<^verbatim>\<open>removeClient\<close> returns and
  \<^verbatim>\<open>screencastStarted\<close> is still true; it is false once the reply has arrived.
\<close>

theorem screencast_stops_after_last_viewer:
  assumes ok: "stop_ok env" "attach_ok env"
    and s: "s = run env ops (new_session\<lparr>browserClient := b\<rparr>)"
  shows "(screencastStarted s \<longrightarrow> viewerClients s \<noteq> []) \<and>
         (screencastStarted s \<and> clientType c = VIEWER \<and> set_delete c (viewerClients s) = [] \<longrightarrow>
            sent (snd (removeClient c s)) =
              sent s @ [SessionSend (the (sessionId s)) ''Page.stopScreencast'' NoParams] \<and>
            screencastStarted (snd (removeClient c s)) \<and>
            \<not> screencastStarted (settle env (snd (removeClient c s))) \<and>
            viewerClients (settle env (snd (removeClient c s))) = [])"
proof -
  have q: "quiet s"
    unfolding s by (rule quiet_run [OF ok quiet_new])
  have inv: "screencastStarted s \<longrightarrow> viewerClients s \<noteq> []"
    using q by (simp add: quiet_def)
  have last: "sent (snd (removeClient c s)) =
              sent s @ [SessionSend (the (sessionId s)) ''Page.stopScreencast'' NoParams] \<and>
            screencastStarted (snd (removeClient c s)) \<and>
            \<not> screencastStarted (settle env (snd (removeClient c s))) \<and>
            viewerClients (settle env (snd (removeClient c s))) = []"
    if st: "screencastStarted s" and v: "clientType c = VIEWER"
      and e: "set_delete c (viewerClients s) = []"
  proof -
    note r = removeClient_last_viewer [OF q st v e]
    have v': "viewerClients (settle env (snd (removeClient c s))) = []"
      by (simp add: settle_one [OF r(3)] r(4))
    have "quiet (settle env (snd (removeClient c s)))"
      by (rule quiet_removeClient [OF ok(1) q])
    with v' have "\<not> screencastStarted (settle env (snd (removeClient c s)))"
      by (auto simp: quiet_def)
    with r v' show ?thesis by simp
  qed
  from inv last show ?thesis by blast
qed

text \<open>An instance: the viewer of \<open>session1\<close> leaves.\<close>

theorem screencast_stops_after_last_viewer_witness:
  "stop_ok env_ok \<and> attach_ok env_ok \<and>
   session1 = run env_ok [ConnectToPage ''T1'', AddClient viewer1] (new_session\<lparr>browserClient := True\<rparr>) \<and>
   screencastStarted session1 \<and> clientType viewer1 = VIEWER \<and>
   set_delete viewer1 (viewerClients session1) = [] \<and>
   viewerClients session1 \<noteq> [] \<and>
   sent (snd (removeClient viewer1 session1)) =
     sent session1 @ [SessionSend (the (sessionId session1)) ''Page.stopScreencast'' NoParams] \<and>
   screencastStarted (snd (removeClient viewer1 session1)) \<and>
   \<not> screencastStarted (settle env_ok (snd (removeClient viewer1 session1))) \<and>
   viewerClients (settle env_ok (snd (removeClient viewer1 session1))) = []"
proof -
  have a: "stop_ok env_ok" "attach_ok env_ok"
    by (simp_all add: stop_ok_def attach_ok_def)
  have b: "session1 = run env_ok [ConnectToPage ''T1'', AddClient viewer1] (new_session\<lparr>browserClient := True\<rparr>)"
    by (simp add: session1_def)
  have c: "screencastStarted session1" "set_delete viewer1 (viewerClients session1) = []"
    by (simp_all add: session1_eq set_delete_def)
  from screencast_stops_after_last_viewer [OF a b, of viewer1] a b c show ?thesis
    by simp
qed

text \<open>
  C1 as stated fails: when \<^verbatim>\<open>removeClient\<close> returns after removing the only viewer of
  \<open>session1\<close>, \<^verbatim>\<open>Page.stopScreencast\<close> is the last command sent, there is no viewer, and
  \<^verbatim>\<open>screencastStarted\<close> is true: the flag is cleared by the rest of \<^verbatim>\<open>stopScreencast\<close>, which
  runs after the reply. When the browser answers that command with an error the flag stays
  true with no viewer.
\<close>

theorem screencast_flag_counterexample:
  "screencastStarted session1 \<and> viewerClients session1 = [viewer1] \<and>
   fst (removeClient viewer1 session1) = False \<and>
   viewerClients (snd (removeClient viewer1 session1)) = [] \<and>
   last (sent (snd (removeClient viewer1 session1))) = SessionSend ''S1'' ''Page.stopScreencast'' NoParams \<and>
   screencastStarted (snd (removeClient viewer1 session1)) \<and>
   viewerClients (settle env_stop_fails (snd (removeClient viewer1 session1))) = [] \<and>
   screencastStarted (settle env_stop_fails (snd (removeClient viewer1 session1)))"
  by (simp add: session1_removed settle_one outcome_def env_stop_fails_def)
     (simp add: session1_eq)

subsection \<open>Keyboard input\<close>

definition MODIFIER_KEYS :: "(string \<times> string \<times> nat) list" where
  "MODIFIER_KEYS =
     [(''Control'', ''ControlLeft'', 17), (''Alt'', ''AltLeft'', 18), (''Shift'', ''ShiftLeft'', 16)]"

definition dispatchModifierKey ::
  "cdp_env \<Rightarrow> string \<Rightarrow> string \<Rightarrow> nat \<Rightarrow> BrowserSession \<Rightarrow> (string + nat) \<times> BrowserSession" where
  "dispatchModifierKey env type key modifiers s =
     (case map_of MODIFIER_KEYS key of
        Some (code, keyCode) \<Rightarrow>
          send env ''Input.dispatchKeyEvent'' (KeyEventParams type key code modifiers keyCode) s
      | None \<Rightarrow> (Inl ''TypeError'', s))"

definition getCurrentModifierFlags :: "BrowserSession \<Rightarrow> nat" where
  "getCurrentModifierFlags s =
     getModifierFlags \<lparr>alt = ''Alt'' \<in> pressedModifiers s,
                       ctrl = ''Control'' \<in> pressedModifiers s,
                       meta = False,
                       shift = ''Shift'' \<in> pressedModifiers s\<rparr>"

text \<open>
  The three \<^verbatim>\<open>if\<close> statements of \<^verbatim>\<open>keyDown\<close> differ in the flag that asks for the modifier,
  in the key and in the \<^verbatim>\<open>modifiers\<close> sent (the literal 0 for Control, the current flags for
  Alt and Shift): the modifier is dispatched, then added. Those of \<^verbatim>\<open>keyUp\<close> delete the
  modifier first and dispatch with the flags read after the deletion (the literal 0 for
  Control).
\<close>

definition pressModifier ::
  "cdp_env \<Rightarrow> bool \<Rightarrow> string \<Rightarrow> (BrowserSession \<Rightarrow> nat) \<Rightarrow> BrowserSession
   \<Rightarrow> (string + unit) \<times> BrowserSession" where
  "pressModifier env wanted key flags s =
     (if wanted \<and> key \<notin> pressedModifiers s
      then bind (dispatchModifierKey env ''keyDown'' key (flags s))
             (\<lambda>_ s1. (Inr (), s1\<lparr>pressedModifiers := insert key (pressedModifiers s1)\<rparr>)) s
      else (Inr (), s))"

definition releaseModifier ::
  "cdp_env \<Rightarrow> bool \<Rightarrow> string \<Rightarrow> (BrowserSession \<Rightarrow> nat) \<Rightarrow> BrowserSession
   \<Rightarrow> (string + unit) \<times> BrowserSession" where
  "releaseModifier env unwanted key flags s =
     (if unwanted \<and> key \<in> pressedModifiers s
      then (let s1 = s\<lparr>pressedModifiers := pressedModifiers s - {key}\<rparr>
            in bind (dispatchModifierKey env ''keyUp'' key (flags s1)) (\<lambda>_ s2. (Inr (), s2)) s1)
      else (Inr (), s))"

text \<open>
  The bodies of the \<^verbatim>\<open>try\<close> blocks; \<^verbatim>\<open>keyDown\<close> and \<^verbatim>\<open>keyUp\<close> return without doing
  anything when there is no page session, and the \<^verbatim>\<open>catch\<close> only logs.
\<close>

definition keyDown_body ::
  "cdp_env \<Rightarrow> string \<Rightarrow> string \<Rightarrow> KeyModifiers \<Rightarrow> BrowserSession \<Rightarrow> (string + unit) \<times> BrowserSession" where
  "keyDown_body env key code modifiers =
     bind (pressModifier env (ctrl modifiers \<or> meta modifiers) ''Control'' (\<lambda>_. 0))
       (\<lambda>_. bind (pressModifier env (alt modifiers) ''Alt'' getCurrentModifierFlags)
         (\<lambda>_. bind (pressModifier env (shift modifiers) ''Shift'' getCurrentModifierFlags)
           (\<lambda>_. bind (send env ''Input.dispatchKeyEvent''
                        (KeyEventParams ''keyDown'' key code (getModifierFlags modifiers)
                           (getKeyCode key code)))
             (\<lambda>_. if length key = 1
                   then bind (send env ''Input.dispatchKeyEvent''
                                (CharEventParams key key code (getModifierFlags modifiers)))
                          (\<lambda>_ s. (Inr (), s))
                   else (\<lambda>s. (Inr (), s))))))"

definition keyDown :: "cdp_env \<Rightarrow> string \<Rightarrow> string \<Rightarrow> KeyModifiers \<Rightarrow> BrowserSession \<Rightarrow> BrowserSession" where
  "keyDown env key code modifiers s =
     (if \<not> present (sessionId s) then s else snd (keyDown_body env key code modifiers s))"

definition keyUp_body ::
  "cdp_env \<Rightarrow> string \<Rightarrow> string \<Rightarrow> KeyModifiers \<Rightarrow> BrowserSession \<Rightarrow> (string + unit) \<times> BrowserSession" where
  "keyUp_body env key code modifiers =
     bind (send env ''Input.dispatchKeyEvent''
             (KeyEventParams ''keyUp'' key code (getModifierFlags modifiers) (getKeyCode key code)))
       (\<lambda>_. bind (releaseModifier env (\<not> shift modifiers) ''Shift'' getCurrentModifierFlags)
         (\<lambda>_. bind (releaseModifier env (\<not> alt modifiers) ''Alt'' getCurrentModifierFlags)
           (\<lambda>_. releaseModifier env (\<not> (ctrl modifiers \<or> meta modifiers)) ''Control'' (\<lambda>_. 0))))"

definition keyUp :: "cdp_env \<Rightarrow> string \<Rightarrow> string \<Rightarrow> KeyModifiers \<Rightarrow> BrowserSession \<Rightarrow> BrowserSession" where
  "keyUp env key code modifiers s =
     (if \<not> present (sessionId s) then s else snd (keyUp_body env key code modifiers s))"

text \<open>
  A browser that never rejects \<^verbatim>\<open>Input.dispatchKeyEvent\<close>; a session on which \<^verbatim>\<open>send\<close> does
  not throw; the three names \<^verbatim>\<open>pressedModifiers\<close> can hold.
\<close>

definition keys_ok :: "cdp_env \<Rightarrow> bool" where
  "keys_ok env = (\<forall>n sid p. fails env n (SessionSend sid ''Input.dispatchKeyEvent'' p) = None)"

definition cdp_connected :: "BrowserSession \<Rightarrow> bool" where
  "cdp_connected s = (browserClient s \<and> present (sessionId s))"

definition MODIFIER_NAMES :: "string set" where
  "MODIFIER_NAMES = {''Control'', ''Alt'', ''Shift''}"

lemma send_key_ok:
  assumes "keys_ok env" "cdp_connected s"
  shows "send env ''Input.dispatchKeyEvent'' p s =
           (Inr (length (sent s)),
            s\<lparr>sent := sent s @ [SessionSend (the (sessionId s)) ''Input.dispatchKeyEvent'' p]\<rparr>)"
  using assms by (simp add: send_def transport_def keys_ok_def cdp_connected_def)

lemma pressModifier_ok:
  assumes "keys_ok env" "cdp_connected s" "key \<in> MODIFIER_NAMES"
  shows "\<exists>s'. pressModifier env wanted key flags s = (Inr (), s') \<and> cdp_connected s' \<and>
              pressedModifiers s' = (if wanted then insert key (pressedModifiers s) else pressedModifiers s)"
  using assms
  by (auto simp: pressModifier_def dispatchModifierKey_def MODIFIER_KEYS_def MODIFIER_NAMES_def
        bind_def send_key_ok cdp_connected_def)

lemma releaseModifier_ok:
  assumes "keys_ok env" "cdp_connected s" "key \<in> MODIFIER_NAMES"
  shows "\<exists>s'. releaseModifier env unwanted key flags s = (Inr (), s') \<and> cdp_connected s' \<and>
              pressedModifiers s' = (if unwanted then pressedModifiers s - {key} else pressedModifiers s)"
proof -
  have c: "cdp_connected (s\<lparr>pressedModifiers := pressedModifiers s - {key}\<rparr>)"
    using assms(2) by (simp add: cdp_connected_def)
  show ?thesis
    using assms(3) send_key_ok [OF assms(1) c] assms(2)
    by (auto simp: releaseModifier_def dispatchModifierKey_def MODIFIER_KEYS_def MODIFIER_NAMES_def
          bind_def Let_def cdp_connected_def)
qed

lemma mods: "''Control'' \<in> MODIFIER_NAMES" "''Alt'' \<in> MODIFIER_NAMES" "''Shift'' \<in> MODIFIER_NAMES"
  by (simp_all add: MODIFIER_NAMES_def)

lemma keyDown_pressed:
  assumes ok: "keys_ok env" and c: "cdp_connected s"
  shows "pressedModifiers (keyDown env key code m s) =
           pressedModifiers s \<union> {x. x = ''Control'' \<and> (ctrl m \<or> meta m)} \<union>
           {x. x = ''Alt'' \<and> alt m} \<union> {x. x = ''Shift'' \<and> shift m}"
    and "cdp_connected (keyDown env key code m s)"
proof -
  obtain s1 where s1: "pressModifier env (ctrl m \<or> meta m) ''Control'' (\<lambda>_. 0) s = (Inr (), s1)"
      "cdp_connected s1"
      "pressedModifiers s1 = (if ctrl m \<or> meta m then insert ''Control'' (pressedModifiers s) else pressedModifiers s)"
    using pressModifier_ok [OF ok c mods(1), where wanted = "ctrl m \<or> meta m" and flags = "\<lambda>_. 0"] by auto
  obtain s2 where s2: "pressModifier env (alt m) ''Alt'' getCurrentModifierFlags s1 = (Inr (), s2)"
      "cdp_connected s2"
      "pressedModifiers s2 = (if alt m then insert ''Alt'' (pressedModifiers s1) else pressedModifiers s1)"
    using pressModifier_ok [OF ok s1(2) mods(2), where wanted = "alt m" and flags = getCurrentModifierFlags] by auto
  obtain s3 where s3: "pressModifier env (shift m) ''Shift'' getCurrentModifierFlags s2 = (Inr (), s3)"
      "cdp_connected s3"
      "pressedModifiers s3 = (if shift m then insert ''Shift'' (pressedModifiers s2) else pressedModifiers s2)"
    using pressModifier_ok [OF ok s2(2) mods(3), where wanted = "shift m" and flags = getCurrentModifierFlags] by auto
  let ?s4 = "s3\<lparr>sent := sent s3 @ [SessionSend (the (sessionId s3)) ''Input.dispatchKeyEvent''
                 (KeyEventParams ''keyDown'' key code (getModifierFlags m) (getKeyCode key code))]\<rparr>"
  have c4: "cdp_connected ?s4" using s3(2) by (simp add: cdp_connected_def)
  have body: "pressedModifiers (snd (keyDown_body env key code m s)) = pressedModifiers s3
              \<and> cdp_connected (snd (keyDown_body env key code m s))"
    using s3(2) c4
    by (simp add: keyDown_body_def bind_def s1 s2 s3 send_key_ok [OF ok s3(2)]
          send_key_ok [OF ok c4]) (simp add: cdp_connected_def)
  have p: "present (sessionId s)" using c by (simp add: cdp_connected_def)
  from body p s1(3) s2(3) s3(3)
  show "pressedModifiers (keyDown env key code m s) =
           pressedModifiers s \<union> {x. x = ''Control'' \<and> (ctrl m \<or> meta m)} \<union>
           {x. x = ''Alt'' \<and> alt m} \<union> {x. x = ''Shift'' \<and> shift m}"
    by (auto simp: keyDown_def)
  from body p show "cdp_connected (keyDown env key code m s)"
    by (simp add: keyDown_def)
qed

lemma keyUp_pressed:
  assumes ok: "keys_ok env" and c: "cdp_connected s"
  shows "pressedModifiers (keyUp env key code m s) =
           pressedModifiers s - {x. x = ''Shift'' \<and> \<not> shift m} - {x. x = ''Alt'' \<and> \<not> alt m}
             - {x. x = ''Control'' \<and> \<not> (ctrl m \<or> meta m)}"
    and "cdp_connected (keyUp env key code m s)"
proof -
  let ?s0 = "s\<lparr>sent := sent s @ [SessionSend (the (sessionId s)) ''Input.dispatchKeyEvent''
                 (KeyEventParams ''keyUp'' key code (getModifierFlags m) (getKeyCode key code))]\<rparr>"
  have c0: "cdp_connected ?s0" using c by (simp add: cdp_connected_def)
  obtain s1 where s1: "releaseModifier env (\<not> shift m) ''Shift'' getCurrentModifierFlags ?s0 = (Inr (), s1)"
      "cdp_connected s1"
      "pressedModifiers s1 = (if \<not> shift m then pressedModifiers ?s0 - {''Shift''} else pressedModifiers ?s0)"
    using releaseModifier_ok [OF ok c0 mods(3), where unwanted = "\<not> shift m" and flags = getCurrentModifierFlags] by auto
  obtain s2 where s2: "releaseModifier env (\<not> alt m) ''Alt'' getCurrentModifierFlags s1 = (Inr (), s2)"
      "cdp_connected s2"
      "pressedModifiers s2 = (if \<not> alt m then pressedModifiers s1 - {''Alt''} else pressedModifiers s1)"
    using releaseModifier_ok [OF ok s1(2) mods(2), where unwanted = "\<not> alt m" and flags = getCurrentModifierFlags] by auto
  obtain s3 where s3: "releaseModifier env (\<not> (ctrl m \<or> meta m)) ''Control'' (\<lambda>_. 0) s2 = (Inr (), s3)"
      "cdp_connected s3"
      "pressedModifiers s3 = (if \<not> (ctrl m \<or> meta m) then pressedModifiers s2 - {''Control''} else pressedModifiers s2)"
    using releaseModifier_ok [OF ok s2(2) mods(1), where unwanted = "\<not> (ctrl m \<or> meta m)" and flags = "\<lambda>_. 0"] by auto
  have body: "snd (keyUp_body env key code m s) = s3"
    using s3(1) by (simp add: keyUp_body_def bind_def send_key_ok [OF ok c] s1 s2)
  have p: "present (sessionId s)" using c by (simp add: cdp_connected_def)
  from body p s1(3) s2(3) s3(3)
  show "pressedModifiers (keyUp env key code m s) =
           pressedModifiers s - {x. x = ''Shift'' \<and> \<not> shift m} - {x. x = ''Alt'' \<and> \<not> alt m}
             - {x. x = ''Control'' \<and> \<not> (ctrl m \<or> meta m)}"
    by (auto simp: keyUp_def)
  from body p s3(2) show "cdp_connected (keyUp env key code m s)"
    by (simp add: keyUp_def)
qed

text \<open>Modifier records, two browsers that reject one key event, and sessions holding keys.\<close>

definition mods_ctrl :: KeyModifiers where
  "mods_ctrl = \<lparr>alt = False, ctrl = True, meta = False, shift = False\<rparr>"

definition mods_ctrl_shift :: KeyModifiers where
  "mods_ctrl_shift = \<lparr>alt = False, ctrl = True, meta = False, shift = True\<rparr>"

definition mods_shift :: KeyModifiers where
  "mods_shift = \<lparr>alt = False, ctrl = False, meta = False, shift = True\<rparr>"

definition mods_none :: KeyModifiers where
  "mods_none = \<lparr>alt = False, ctrl = False, meta = False, shift = False\<rparr>"

definition env_keydown_fails :: cdp_env where
  "env_keydown_fails =
     env_ok\<lparr>fails := (\<lambda>n c. if c = SessionSend ''S1'' ''Input.dispatchKeyEvent''
                                      (KeyEventParams ''keyDown'' ''Control'' ''ControlLeft'' 0 17)
                             then Some ''Session with given id not found'' else None)\<rparr>"

definition env_keyup_fails :: cdp_env where
  "env_keyup_fails =
     env_ok\<lparr>fails := (\<lambda>n c. if c = SessionSend ''S1'' ''Input.dispatchKeyEvent''
                                      (KeyEventParams ''keyUp'' ''a'' ''KeyA'' 0 65)
                             then Some ''Session with given id not found'' else None)\<rparr>"

definition held_ctrl :: BrowserSession where
  "held_ctrl = keyDown env_ok ''a'' ''KeyA'' mods_ctrl session1"

definition held_ctrl_shift :: BrowserSession where
  "held_ctrl_shift = keyDown env_ok ''a'' ''KeyA'' mods_ctrl_shift session1"

lemma getKeyCode_a: "getKeyCode ''a'' ''KeyA'' = 65"
  by (simp add: getKeyCode_def KEY_CODE_MAP_def)

lemma flags_eval:
  "getModifierFlags mods_ctrl = 2" "getModifierFlags mods_ctrl_shift = 10"
  "getModifierFlags mods_shift = 8" "getModifierFlags mods_none = 0"
  by (simp_all add: getModifierFlags_def mods_ctrl_def mods_ctrl_shift_def mods_shift_def mods_none_def)

lemma mods_fields [simp]:
  "ctrl mods_ctrl" "\<not> alt mods_ctrl" "\<not> meta mods_ctrl" "\<not> shift mods_ctrl"
  "ctrl mods_ctrl_shift" "\<not> alt mods_ctrl_shift" "\<not> meta mods_ctrl_shift" "shift mods_ctrl_shift"
  "\<not> ctrl mods_shift" "\<not> alt mods_shift" "\<not> meta mods_shift" "shift mods_shift"
  "\<not> ctrl mods_none" "\<not> alt mods_none" "\<not> meta mods_none" "\<not> shift mods_none"
  by (simp_all add: mods_ctrl_def mods_ctrl_shift_def mods_shift_def mods_none_def)

lemma session1_fields [simp]:
  "browserClient session1" "sessionId session1 = Some ''S1''" "pressedModifiers session1 = {}"
  by (simp_all add: session1_eq)

lemma session1_connected: "cdp_connected session1"
  by (simp add: cdp_connected_def present_def)

lemma keys_ok_env_ok: "keys_ok env_ok"
  by (simp add: keys_ok_def)

lemma held_ctrl_shift_eq:
  "held_ctrl_shift = session1\<lparr>pressedModifiers := {''Control'', ''Shift''},
      sent := sent session1 @
        [SessionSend ''S1'' ''Input.dispatchKeyEvent'' (KeyEventParams ''keyDown'' ''Control'' ''ControlLeft'' 0 17),
         SessionSend ''S1'' ''Input.dispatchKeyEvent'' (KeyEventParams ''keyDown'' ''Shift'' ''ShiftLeft'' 2 16),
         SessionSend ''S1'' ''Input.dispatchKeyEvent'' (KeyEventParams ''keyDown'' ''a'' ''KeyA'' 10 65),
         SessionSend ''S1'' ''Input.dispatchKeyEvent'' (CharEventParams ''a'' ''a'' ''KeyA'' 10)]\<rparr>"
  by (simp add: held_ctrl_shift_def keyDown_def keyDown_body_def pressModifier_def
        dispatchModifierKey_def MODIFIER_KEYS_def bind_def send_def transport_def present_def
        getCurrentModifierFlags_def getModifierFlags_def flags_eval getKeyCode_a insert_commute)

text \<open>
  C2, evaluated where it fails. With Control and Shift pressed, \<^verbatim>\<open>keyUp\<close> for the key
  \<^verbatim>\<open>a\<close> with only the shift flag still set sends the primary key-up with flags 8 and then
  releases Control with \<^verbatim>\<open>modifiers\<close> 0, while the pressed set after that release is
  \<open>{Shift}\<close>, whose flag encoding is 8.
\<close>

theorem keyUp_control_release_flags:
  "pressedModifiers held_ctrl_shift = {''Control'', ''Shift''} \<and>
   drop (length (sent held_ctrl_shift)) (sent (keyUp env_ok ''a'' ''KeyA'' mods_shift held_ctrl_shift)) =
     [SessionSend ''S1'' ''Input.dispatchKeyEvent'' (KeyEventParams ''keyUp'' ''a'' ''KeyA'' 8 65),
      SessionSend ''S1'' ''Input.dispatchKeyEvent'' (KeyEventParams ''keyUp'' ''Control'' ''ControlLeft'' 0 17)] \<and>
   pressedModifiers (keyUp env_ok ''a'' ''KeyA'' mods_shift held_ctrl_shift) = {''Shift''} \<and>
   getCurrentModifierFlags (keyUp env_ok ''a'' ''KeyA'' mods_shift held_ctrl_shift) = 8"
  by (simp add: held_ctrl_shift_eq keyUp_def keyUp_body_def releaseModifier_def Let_def
        dispatchModifierKey_def MODIFIER_KEYS_def bind_def send_def transport_def present_def
        getCurrentModifierFlags_def getModifierFlags_def flags_eval getKeyCode_a)

text \<open>
  C3 (as amended). On a connected session whose key events the browser does not reject:
  after \<^verbatim>\<open>keyDown\<close> the pressed set holds every modifier asked for (Control for
  \<^verbatim>\<open>ctrl\<close> or \<^verbatim>\<open>meta\<close>); after \<^verbatim>\<open>keyUp\<close> it holds only modifiers still asked for; a
  \<^verbatim>\<open>keyDown\<close> followed by a \<^verbatim>\<open>keyUp\<close> with all flags false leaves it empty. The pressed set
  only ever holds the three modifier names, which both operations preserve.
\<close>

theorem modifier_tracking:
  assumes ok: "keys_ok env" and c: "cdp_connected s" and inv: "pressedModifiers s \<subseteq> MODIFIER_NAMES"
  shows "(ctrl m \<or> meta m \<longrightarrow> ''Control'' \<in> pressedModifiers (keyDown env key code m s)) \<and>
         (alt m \<longrightarrow> ''Alt'' \<in> pressedModifiers (keyDown env key code m s)) \<and>
         (shift m \<longrightarrow> ''Shift'' \<in> pressedModifiers (keyDown env key code m s)) \<and>
         pressedModifiers (keyUp env key code m s) \<subseteq>
           {x. x = ''Control'' \<and> (ctrl m \<or> meta m)} \<union> {x. x = ''Alt'' \<and> alt m} \<union>
           {x. x = ''Shift'' \<and> shift m} \<and>
         pressedModifiers (keyUp env key' code'
             \<lparr>alt = False, ctrl = False, meta = False, shift = False\<rparr>
             (keyDown env key code m s)) = {} \<and>
         pressedModifiers (keyDown env key code m s) \<subseteq> MODIFIER_NAMES \<and>
         pressedModifiers (keyUp env key code m s) \<subseteq> MODIFIER_NAMES"
proof -
  note d = keyDown_pressed [OF ok c, of key code m]
  note u = keyUp_pressed [OF ok c, of key code m]
  note du = keyUp_pressed(1) [OF ok d(2), of key' code'
              "\<lparr>alt = False, ctrl = False, meta = False, shift = False\<rparr>"]
  have dn: "pressedModifiers (keyDown env key code m s) \<subseteq> MODIFIER_NAMES"
    using inv by (auto simp: d(1) MODIFIER_NAMES_def)
  have "pressedModifiers (keyUp env key' code'
             \<lparr>alt = False, ctrl = False, meta = False, shift = False\<rparr>
             (keyDown env key code m s)) = {}"
    using dn by (auto simp: du MODIFIER_NAMES_def)
  moreover have "pressedModifiers (keyUp env key code m s) \<subseteq>
           {x. x = ''Control'' \<and> (ctrl m \<or> meta m)} \<union> {x. x = ''Alt'' \<and> alt m} \<union>
           {x. x = ''Shift'' \<and> shift m}"
    using inv by (auto simp: u(1) MODIFIER_NAMES_def)
  moreover have "pressedModifiers (keyUp env key code m s) \<subseteq> MODIFIER_NAMES"
    using inv by (auto simp: u(1))
  ultimately show ?thesis
    using dn by (simp add: d(1))
qed

text \<open>An instance: Control and \<^verbatim>\<open>a\<close> on \<open>session1\<close>.\<close>

theorem modifier_tracking_witness:
  "keys_ok env_ok \<and> cdp_connected session1 \<and> pressedModifiers session1 \<subseteq> MODIFIER_NAMES \<and>
   ctrl mods_ctrl \<and>
   ''Control'' \<in> pressedModifiers (keyDown env_ok ''a'' ''KeyA'' mods_ctrl session1) \<and>
   pressedModifiers (keyUp env_ok ''a'' ''KeyA'' mods_ctrl session1) \<subseteq>
           {x. x = ''Control'' \<and> (ctrl mods_ctrl \<or> meta mods_ctrl)} \<union> {x. x = ''Alt'' \<and> alt mods_ctrl} \<union>
           {x. x = ''Shift'' \<and> shift mods_ctrl} \<and>
   pressedModifiers (keyUp env_ok ''a'' ''KeyA''
        \<lparr>alt = False, ctrl = False, meta = False, shift = False\<rparr>
        (keyDown env_ok ''a'' ''KeyA'' mods_ctrl session1)) = {}"
proof -
  have i: "pressedModifiers session1 \<subseteq> MODIFIER_NAMES"
    by simp
  from modifier_tracking [OF keys_ok_env_ok session1_connected i, of mods_ctrl "''a''" "''KeyA''" "''a''" "''KeyA''"]
    keys_ok_env_ok session1_connected
  show ?thesis by simp
qed

text \<open>
  C3 as stated fails: when the browser rejects the Control key-down, \<^verbatim>\<open>keyDown\<close> returns
  with Control asked for and not in the pressed set; when it rejects the primary key-up,
  \<^verbatim>\<open>keyUp\<close> with all flags false returns with Control still in the pressed set.
\<close>

theorem modifier_tracking_counterexample:
  "cdp_connected session1 \<and> ctrl mods_ctrl \<and>
   ''Control'' \<notin> pressedModifiers (keyDown env_keydown_fails ''a'' ''KeyA'' mods_ctrl session1) \<and>
   cdp_connected held_ctrl \<and> pressedModifiers held_ctrl = {''Control''} \<and>
   pressedModifiers (keyUp env_keyup_fails ''a'' ''KeyA'' mods_none held_ctrl) = {''Control''}"
  by (simp add: session1_connected cdp_connected_def held_ctrl_def
        keyDown_def keyDown_body_def pressModifier_def keyUp_def keyUp_body_def
        dispatchModifierKey_def MODIFIER_KEYS_def bind_def send_def transport_def present_def
        env_keydown_fails_def env_keyup_fails_def flags_eval getKeyCode_a)

subsection \<open>Election of the active page\<close>

text \<open>
  \<^verbatim>\<open>sendToSession\<close> sends to a given session without the checks of \<^verbatim>\<open>send\<close>. \<open>probe\<close> is the
  \<^verbatim>\<open>try\<close> block of the loop of \<^verbatim>\<open>findActiveTarget\<close>: attach, enable \<^verbatim>\<open>Runtime\<close>, evaluate,
  detach, and only then compare the value with \<^verbatim>\<open>'visible'\<close>; a throw of any of the four
  is caught by the loop, which goes on with the next page.
\<close>

definition sendToSession ::
  "cdp_env \<Rightarrow> string \<Rightarrow> cdp_params \<Rightarrow> string \<Rightarrow> BrowserSession \<Rightarrow> (string + nat) \<times> BrowserSession" where
  "sendToSession env method params sid s = transport env (SessionSend sid method params) s"

definition probe :: "cdp_env \<Rightarrow> TargetInfo \<Rightarrow> BrowserSession \<Rightarrow> (string + bool) \<times> BrowserSession" where
  "probe env page =
     bind (transport env (AttachToTarget (info_targetId page)))
       (\<lambda>n. bind (sendToSession env ''Runtime.enable'' NoParams (attached env n))
         (\<lambda>_. bind (sendToSession env ''Runtime.evaluate''
                       (EvaluateParams ''document.visibilityState'') (attached env n))
           (\<lambda>m. bind (transport env (DetachFromTarget (attached env n)))
             (\<lambda>_ s. (Inr (strict_eq (evaluated env m) (JStr ''visible'')), s)))))"

fun probePages :: "cdp_env \<Rightarrow> TargetInfo list \<Rightarrow> BrowserSession \<Rightarrow> string option \<times> BrowserSession" where
  "probePages env [] s = (None, s)"
| "probePages env (page # rest) s =
     (case probe env page s of
        (r, s') \<Rightarrow> if r = Inr True then (Some (info_targetId page), s')
                   else probePages env rest s')"

definition nonBlankPages :: "TargetInfo list \<Rightarrow> TargetInfo list" where
  "nonBlankPages infos = filter (\<lambda>t. info_type t = ''page'' \<and> info_url t \<noteq> ''about:blank'') infos"

definition allPages :: "TargetInfo list \<Rightarrow> TargetInfo list" where
  "allPages infos = filter (\<lambda>t. info_type t = ''page'') infos"

definition findActiveTarget ::
  "cdp_env \<Rightarrow> BrowserSession \<Rightarrow> (string + string option) \<times> BrowserSession" where
  "findActiveTarget env s =
     (if \<not> browserClient s then (Inr None, s)
      else bind (transport env GetTargets)
             (\<lambda>n s1.
                case probePages env (nonBlankPages (targets env n)) s1 of
                  (Some found, s2) \<Rightarrow> (Inr (Some found), s2)
                | (None, s2) \<Rightarrow>
                    if length (nonBlankPages (targets env n)) > 0
                    then (Inr (Some (info_targetId (hd (nonBlankPages (targets env n))))), s2)
                    else if length (allPages (targets env n)) > 0
                    then (Inr (Some (info_targetId (hd (allPages (targets env n))))), s2)
                    else (Inr None, s2))
             s)"

text \<open>
  The browser's side of a probe that starts as request number \<open>n\<close>: the four requests
  (attach, \<^verbatim>\<open>Runtime.enable\<close>, \<^verbatim>\<open>Runtime.evaluate\<close>, detach) are answered without error
  and the value of the evaluation is \<^verbatim>\<open>visible\<close>.
\<close>

definition probe_visible :: "cdp_env \<Rightarrow> nat \<Rightarrow> TargetInfo \<Rightarrow> bool" where
  "probe_visible env n page =
     (fails env n (AttachToTarget (info_targetId page)) = None \<and>
      fails env (n + 1) (SessionSend (attached env n) ''Runtime.enable'' NoParams) = None \<and>
      fails env (n + 2) (SessionSend (attached env n) ''Runtime.evaluate''
                           (EvaluateParams ''document.visibilityState'')) = None \<and>
      fails env (n + 3) (DetachFromTarget (attached env n)) = None \<and>
      strict_eq (evaluated env (n + 2)) (JStr ''visible''))"

text \<open>
  The number of requests a probe sends: it stops at the first one that is rejected.
  \<open>probe_start\<close> is the request number at which the probe of the \<open>k\<close>-th page starts.
\<close>

definition probe_requests :: "cdp_env \<Rightarrow> nat \<Rightarrow> TargetInfo \<Rightarrow> nat" where
  "probe_requests env n page =
     (if fails env n (AttachToTarget (info_targetId page)) \<noteq> None then 1
      else if fails env (n + 1) (SessionSend (attached env n) ''Runtime.enable'' NoParams) \<noteq> None
      then 2
      else if fails env (n + 2) (SessionSend (attached env n) ''Runtime.evaluate''
                                   (EvaluateParams ''document.visibilityState'')) \<noteq> None
      then 3
      else 4)"

fun probe_start :: "cdp_env \<Rightarrow> nat \<Rightarrow> TargetInfo list \<Rightarrow> nat \<Rightarrow> nat" where
  "probe_start env n pages 0 = n"
| "probe_start env n [] (Suc k) = n"
| "probe_start env n (page # rest) (Suc k) = probe_start env (n + probe_requests env n page) rest k"

text \<open>A probe elects its page exactly when all four requests succeed with the value \<^verbatim>\<open>visible\<close>.\<close>

lemma probe_outcome:
  "fst (probe env page s) = Inr True \<longleftrightarrow> probe_visible env (length (sent s)) page"
  "length (sent (snd (probe env page s))) = length (sent s) + probe_requests env (length (sent s)) page"
  by (auto simp: probe_def bind_def transport_def sendToSession_def probe_visible_def
        probe_requests_def eval_nat_numeral split: option.splits)

lemma probePages_first:
  assumes "k < length pages"
    and "probe_visible env (probe_start env (length (sent s)) pages k) (pages ! k)"
    and "\<forall>j<k. \<not> probe_visible env (probe_start env (length (sent s)) pages j) (pages ! j)"
  shows "fst (probePages env pages s) = Some (info_targetId (pages ! k))"
  using assms
proof (induction pages arbitrary: s k)
  case Nil
  then show ?case by simp
next
  case (Cons page rest)
  obtain r s' where p: "probe env page s = (r, s')" by (cases "probe env page s")
  from probe_outcome [of env page s] p
  have o: "r = Inr True \<longleftrightarrow> probe_visible env (length (sent s)) page"
    "length (sent s') = length (sent s) + probe_requests env (length (sent s)) page"
    by simp_all
  show ?case
  proof (cases k)
    case 0
    with Cons.prems o p show ?thesis by simp
  next
    case (Suc k')
    with Cons.prems(3) have "\<not> probe_visible env (length (sent s)) page" by force
    with o have nr: "r \<noteq> Inr True" by simp
    have "fst (probePages env rest s') = Some (info_targetId (rest ! k'))"
    proof (rule Cons.IH)
      show "k' < length rest" using Cons.prems(1) Suc by simp
      show "probe_visible env (probe_start env (length (sent s')) rest k') (rest ! k')"
        using Cons.prems(2) Suc o by simp
      show "\<forall>j<k'. \<not> probe_visible env (probe_start env (length (sent s')) rest j) (rest ! j)"
      proof (intro allI impI)
        fix j assume "j < k'"
        then have "Suc j < k" using Suc by simp
        with Cons.prems(3) have "\<not> probe_visible env (probe_start env (length (sent s)) (page # rest) (Suc j))
                                   ((page # rest) ! Suc j)" by blast
        then show "\<not> probe_visible env (probe_start env (length (sent s')) rest j) (rest ! j)"
          using o by simp
      qed
    qed
    with p nr Suc show ?thesis by simp
  qed
qed

lemma probePages_none:
  assumes "\<forall>k<length pages. \<not> probe_visible env (probe_start env (length (sent s)) pages k) (pages ! k)"
  shows "fst (probePages env pages s) = None"
  using assms
proof (induction pages arbitrary: s)
  case Nil
  then show ?case by simp
next
  case (Cons page rest)
  obtain r s' where p: "probe env page s = (r, s')" by (cases "probe env page s")
  from probe_outcome [of env page s] p
  have o: "r = Inr True \<longleftrightarrow> probe_visible env (length (sent s)) page"
    "length (sent s') = length (sent s) + probe_requests env (length (sent s)) page"
    by simp_all
  from Cons.prems have "\<not> probe_visible env (length (sent s)) page" by force
  with o have nr: "r \<noteq> Inr True" by simp
  have "fst (probePages env rest s') = None"
  proof (rule Cons.IH, intro allI impI)
    fix k assume "k < length rest"
    then have "Suc k < length (page # rest)" by simp
    with Cons.prems have "\<not> probe_visible env (probe_start env (length (sent s)) (page # rest) (Suc k))
                               ((page # rest) ! Suc k)" by blast
    then show "\<not> probe_visible env (probe_start env (length (sent s')) rest k) (rest ! k)"
      using o by simp
  qed
  with p nr show ?case by simp
qed

text \<open>
  C6 (as amended). With an open transport and a target list \<open>infos\<close>, \<^verbatim>\<open>findActiveTarget\<close>
  probes the page targets that are not \<^verbatim>\<open>about:blank\<close> in order and returns the first one
  whose probe runs to its end (the browser answers attach, \<^verbatim>\<open>Runtime.enable\<close>, evaluation
  and detach without error) with the value \<^verbatim>\<open>visible\<close>. When the browser answers no probe
  so, it returns the first page that is not \<^verbatim>\<open>about:blank\<close>, when there is none the first
  page target, and when there is no page target null.
\<close>

theorem findActiveTarget_election:
  assumes b: "browserClient s" and g: "fails env (length (sent s)) GetTargets = None"
    and infos: "infos = targets env (length (sent s))"
    and pages: "pages = nonBlankPages infos"
    and start: "n = Suc (length (sent s))"
  shows "(\<forall>k. k < length pages \<and> probe_visible env (probe_start env n pages k) (pages ! k) \<and>
              (\<forall>j<k. \<not> probe_visible env (probe_start env n pages j) (pages ! j)) \<longrightarrow>
              fst (findActiveTarget env s) = Inr (Some (info_targetId (pages ! k)))) \<and>
         ((\<forall>k<length pages. \<not> probe_visible env (probe_start env n pages k) (pages ! k)) \<longrightarrow>
              fst (findActiveTarget env s) =
                Inr (if pages \<noteq> [] then Some (info_targetId (hd pages))
                     else if allPages infos \<noteq> [] then Some (info_targetId (hd (allPages infos)))
                     else None))"
proof -
  let ?s1 = "s\<lparr>sent := sent s @ [GetTargets]\<rparr>"
  have n: "n = length (sent ?s1)" using start by simp
  have run: "findActiveTarget env s =
      (case probePages env pages ?s1 of
         (Some found, s2) \<Rightarrow> (Inr (Some found), s2)
       | (None, s2) \<Rightarrow>
           if length pages > 0 then (Inr (Some (info_targetId (hd pages))), s2)
           else if length (allPages infos) > 0
           then (Inr (Some (info_targetId (hd (allPages infos)))), s2)
           else (Inr None, s2))"
    unfolding infos pages using b g by (simp add: findActiveTarget_def bind_def transport_def)
  obtain r s2 where pp: "probePages env pages ?s1 = (r, s2)" by (cases "probePages env pages ?s1")
  have first: "fst (findActiveTarget env s) = Inr (Some (info_targetId (pages ! k)))"
    if "k < length pages \<and> probe_visible env (probe_start env n pages k) (pages ! k) \<and>
        (\<forall>j<k. \<not> probe_visible env (probe_start env n pages j) (pages ! j))" for k
  proof -
    from that have "fst (probePages env pages ?s1) = Some (info_targetId (pages ! k))"
      unfolding n by (intro probePages_first) blast+
    with pp show ?thesis unfolding run by simp
  qed
  have none: "fst (findActiveTarget env s) =
                Inr (if pages \<noteq> [] then Some (info_targetId (hd pages))
                     else if allPages infos \<noteq> [] then Some (info_targetId (hd (allPages infos)))
                     else None)"
    if "\<forall>k<length pages. \<not> probe_visible env (probe_start env n pages k) (pages ! k)"
  proof -
    from that have "fst (probePages env pages ?s1) = None"
      unfolding n by (intro probePages_none)
    with pp show ?thesis unfolding run by simp
  qed
  from first none show ?thesis by blast
qed

text \<open>
  Three page targets; a browser in which the second is hidden and the third visible; a
  browser in which both are visible and the detach from the first probed page fails; a
  browser in which every page is hidden.
\<close>

definition page1 :: TargetInfo where
  "page1 = \<lparr>info_targetId = ''P1'', info_type = ''page'', info_url = ''about:blank'', info_title = []\<rparr>"

definition page2 :: TargetInfo where
  "page2 = \<lparr>info_targetId = ''P2'', info_type = ''page'', info_url = ''https://example.com/'', info_title = ''Example''\<rparr>"

definition page3 :: TargetInfo where
  "page3 = \<lparr>info_targetId = ''P3'', info_type = ''page'', info_url = ''https://foo.com/'', info_title = ''Foo''\<rparr>"

definition env_election :: cdp_env where
  "env_election =
     env_ok\<lparr>targets := (\<lambda>n. [page1, page2, page3]),
             attached := (\<lambda>n. if n = 1 then ''SA'' else ''SB''),
             evaluated := (\<lambda>n. if n = 3 then JStr ''hidden'' else JStr ''visible'')\<rparr>"

definition env_detach_fails :: cdp_env where
  "env_detach_fails =
     env_ok\<lparr>targets := (\<lambda>n. [page2, page3]),
             attached := (\<lambda>n. if n = 1 then ''SA'' else ''SB''),
             fails := (\<lambda>n c. if c = DetachFromTarget ''SA''
                              then Some ''No session with given id'' else None)\<rparr>"

definition opened :: BrowserSession where
  "opened = new_session\<lparr>browserClient := True\<rparr>"

lemma page_fields [simp]:
  "info_targetId page1 = ''P1''" "info_targetId page2 = ''P2''" "info_targetId page3 = ''P3''"
  by (simp_all add: page1_def page2_def page3_def)

lemma pages_nonblank [simp]:
  "nonBlankPages [page1, page2, page3] = [page2, page3]"
  "nonBlankPages [page2, page3] = [page2, page3]"
  by (simp_all add: nonBlankPages_def page1_def page2_def page3_def)

lemma opened_fields [simp]: "browserClient opened" "sent opened = []"
  by (simp_all add: opened_def new_session_def)

definition env_hidden :: cdp_env where
  "env_hidden = env_election\<lparr>evaluated := (\<lambda>n. JStr ''hidden'')\<rparr>"

lemma election_probes:
  "\<not> probe_visible env_election 1 page2" "probe_requests env_election 1 page2 = 4"
  "probe_visible env_election 5 page3"
  by (simp_all add: probe_visible_def probe_requests_def env_election_def env_ok_def)

lemma detach_probes:
  "\<not> probe_visible env_detach_fails 1 page2" "probe_requests env_detach_fails 1 page2 = 4"
  "probe_visible env_detach_fails 5 page3"
  by (simp_all add: probe_visible_def probe_requests_def env_detach_fails_def env_ok_def)

lemma hidden_probes:
  "\<not> probe_visible env_hidden n page"
  by (simp add: probe_visible_def env_hidden_def)

text \<open>
  Instances: the blank page is not probed, the hidden page is passed, the third is elected;
  a visible page whose detach fails is passed; with every page hidden the first page that
  is not blank is returned.
\<close>

theorem findActiveTarget_election_witness:
  "browserClient opened \<and> fails env_election (length (sent opened)) GetTargets = None \<and>
   nonBlankPages (targets env_election (length (sent opened))) = [page2, page3] \<and>
   \<not> probe_visible env_election 1 page2 \<and>
   probe_start env_election 1 [page2, page3] 1 = 5 \<and>
   probe_visible env_election 5 page3 \<and>
   fst (findActiveTarget env_election opened) = Inr (Some ''P3'') \<and>
   \<not> probe_visible env_detach_fails 1 page2 \<and>
   fails env_detach_fails 4 (DetachFromTarget (attached env_detach_fails 1)) \<noteq> None \<and>
   probe_visible env_detach_fails 5 page3 \<and>
   fst (findActiveTarget env_detach_fails opened) = Inr (Some ''P3'') \<and>
   fst (findActiveTarget env_hidden opened) = Inr (Some ''P2'')"
proof -
  have g: "fails env_election (length (sent opened)) GetTargets = None"
    "fails env_detach_fails (length (sent opened)) GetTargets = None"
    "fails env_hidden (length (sent opened)) GetTargets = None"
    by (simp_all add: env_election_def env_detach_fails_def env_hidden_def env_ok_def)
  have t: "nonBlankPages (targets env_election (length (sent opened))) = [page2, page3]"
    "nonBlankPages (targets env_detach_fails (length (sent opened))) = [page2, page3]"
    "nonBlankPages (targets env_hidden (length (sent opened))) = [page2, page3]"
    by (simp_all add: env_election_def env_detach_fails_def env_hidden_def)
  have n: "(1::nat) = Suc (length (sent opened))" by simp
  have s: "probe_start env_election 1 [page2, page3] 1 = 5"
    "probe_start env_detach_fails 1 [page2, page3] 1 = 5"
    using election_probes(2) detach_probes(2) by (simp_all add: eval_nat_numeral)
  have k: "(1::nat) < length [page2, page3]" "\<forall>j<(1::nat). j = 0" by simp_all
  note a = findActiveTarget_election [OF opened_fields(1) g(1) refl t(1) [symmetric] n,
      THEN conjunct1, rule_format, of 1]
  have 1: "fst (findActiveTarget env_election opened) = Inr (Some ''P3'')"
    using a s election_probes by simp
  note b = findActiveTarget_election [OF opened_fields(1) g(2) refl t(2) [symmetric] n,
      THEN conjunct1, rule_format, of 1]
  have 2: "fst (findActiveTarget env_detach_fails opened) = Inr (Some ''P3'')"
    using b s detach_probes by simp
  note c = findActiveTarget_election [OF opened_fields(1) g(3) refl t(3) [symmetric] n,
      THEN conjunct2, rule_format]
  have 3: "fst (findActiveTarget env_hidden opened) = Inr (Some ''P2'')"
    using c by (simp add: hidden_probes)
  have d: "fails env_detach_fails 4 (DetachFromTarget (attached env_detach_fails 1)) \<noteq> None"
    by (simp add: env_detach_fails_def)
  from g t s 1 2 3 d election_probes detach_probes show ?thesis
    by simp
qed

lemma detach_run:
  "findActiveTarget env_detach_fails opened =
     (Inr (Some ''P3''),
      opened\<lparr>sent := [GetTargets, AttachToTarget ''P2'',
                SessionSend ''SA'' ''Runtime.enable'' NoParams,
                SessionSend ''SA'' ''Runtime.evaluate'' (EvaluateParams ''document.visibilityState''),
                DetachFromTarget ''SA'', AttachToTarget ''P3'',
                SessionSend ''SB'' ''Runtime.enable'' NoParams,
                SessionSend ''SB'' ''Runtime.evaluate'' (EvaluateParams ''document.visibilityState''),
                DetachFromTarget ''SB'']\<rparr>)"
  by (simp add: findActiveTarget_def probe_def bind_def transport_def sendToSession_def
        env_detach_fails_def env_ok_def)

text \<open>
  C6 as stated fails: the evaluation for page \<^verbatim>\<open>P2\<close>, the first page that is not
  \<^verbatim>\<open>about:blank\<close>, yields \<^verbatim>\<open>visible\<close>, the detach that follows it fails, and
  \<^verbatim>\<open>findActiveTarget\<close> returns \<^verbatim>\<open>P3\<close>.
\<close>

theorem findActiveTarget_counterexample:
  "nonBlankPages (targets env_detach_fails 0) = [page2, page3] \<and>
   sent (snd (findActiveTarget env_detach_fails opened)) ! 3 =
     SessionSend ''SA'' ''Runtime.evaluate'' (EvaluateParams ''document.visibilityState'') \<and>
   fails env_detach_fails 3
     (SessionSend ''SA'' ''Runtime.evaluate'' (EvaluateParams ''document.visibilityState'')) = None \<and>
   evaluated env_detach_fails 3 = JStr ''visible'' \<and>
   fst (findActiveTarget env_detach_fails opened) = Inr (Some ''P3'')"
  by (simp add: detach_run) (simp add: env_detach_fails_def env_ok_def)

subsection \<open>Click by backend node id\<close>

text \<open>Addition and division of numbers, and \<^verbatim>\<open>content[i]\<close>, which is \<^verbatim>\<open>undefined\<close> out of range.\<close>

fun js_add :: "jsnum \<Rightarrow> jsnum \<Rightarrow> jsnum" where
  "js_add (Num a) (Num b) = Num (a + b)"
| "js_add a b = NaN"

fun js_div :: "jsnum \<Rightarrow> rat \<Rightarrow> jsnum" where
  "js_div (Num a) d = Num (a / d)"
| "js_div NaN d = NaN"

definition js_index :: "rat list \<Rightarrow> nat \<Rightarrow> jsnum" where
  "js_index xs i = (if i < length xs then Num (xs ! i) else NaN)"

text \<open>
  The \<^verbatim>\<open>try\<close> block of \<^verbatim>\<open>click\<close>. The test
  \<^verbatim>\<open>!boxModel || !boxModel.model || !boxModel.model.content\<close> is a test for absence: an
  array, also an empty one, is truthy. The \<^verbatim>\<open>catch\<close> logs and throws again.
\<close>

definition click_body :: "cdp_env \<Rightarrow> int \<Rightarrow> BrowserSession \<Rightarrow> (string + unit) \<times> BrowserSession" where
  "click_body env backendNodeId =
     bind (send env ''DOM.enable'' NoParams)
       (\<lambda>_. bind (send env ''DOM.getBoxModel'' (BackendNodeParams backendNodeId))
         (\<lambda>n. case (case boxModel env n of
                       None \<Rightarrow> None
                     | Some None \<Rightarrow> None
                     | Some (Some model) \<Rightarrow> content model) of
                 None \<Rightarrow>
                   (\<lambda>s. (Inl (''Element with backendNodeId '' @ string_of_int backendNodeId @
                               '' not found or has no box model''), s))
               | Some c \<Rightarrow>
                   (let centerX = js_div (js_add (js_add (js_add (js_index c 0) (js_index c 2))
                                                    (js_index c 4)) (js_index c 6)) 4;
                        centerY = js_div (js_add (js_add (js_add (js_index c 1) (js_index c 3))
                                                    (js_index c 5)) (js_index c 7)) 4
                    in bind (send env ''Input.dispatchMouseEvent''
                               (MouseEventParams ''mousePressed'' centerX centerY ''left'' 1))
                         (\<lambda>_. bind (send env ''Input.dispatchMouseEvent''
                                      (MouseEventParams ''mouseReleased'' centerX centerY ''left'' 1))
                           (\<lambda>_ s. (Inr (), s))))))"

definition click :: "cdp_env \<Rightarrow> int \<Rightarrow> BrowserSession \<Rightarrow> (string + unit) \<times> BrowserSession" where
  "click env backendNodeId s =
     (if \<not> present (sessionId s) then (Inr (), s) else click_body env backendNodeId s)"

text \<open>The reply, its model or the content of the model is absent.\<close>

definition box_missing :: "BoxModel option option \<Rightarrow> bool" where
  "box_missing r = (r = None \<or> r = Some None \<or> (\<exists>model. r = Some (Some model) \<and> content model = None))"

lemma click_send:
  assumes "cdp_connected s" "fails env (length (sent s)) (SessionSend (the (sessionId s)) m p) = None"
  shows "send env m p s =
           (Inr (length (sent s)), s\<lparr>sent := sent s @ [SessionSend (the (sessionId s)) m p]\<rparr>)"
  using assms by (simp add: send_def transport_def cdp_connected_def)

lemma click_send_sent:
  assumes "cdp_connected s"
  shows "sent (snd (send env m p s)) = sent s @ [SessionSend (the (sessionId s)) m p]"
  using assms by (simp add: send_def transport_def cdp_connected_def split: option.splits)

lemma js_index_simps:
  "js_index [] i = NaN" "js_index (x # xs) 0 = Num x" "js_index (x # xs) (Suc i) = js_index xs i"
  by (simp_all add: js_index_def)

text \<open>
  C7 (as amended). On a connected session on which \<^verbatim>\<open>DOM.enable\<close> and \<^verbatim>\<open>DOM.getBoxModel\<close>
  succeed: when the content is a quad of eight numbers and the press is not rejected, the
  commands sent are a \<^verbatim>\<open>mousePressed\<close> and then a \<^verbatim>\<open>mouseReleased\<close> event, button left,
  click count 1, at the mean of the four corners; when the reply, its model or its content
  is absent, the call fails with the message
  \<^verbatim>\<open>Element with backendNodeId <n> not found or has no box model\<close> and no mouse event is sent.
\<close>

theorem click_by_backend_node:
  assumes c: "cdp_connected s"
    and e: "fails env (length (sent s)) (SessionSend (the (sessionId s)) ''DOM.enable'' NoParams) = None"
    and g: "fails env (Suc (length (sent s)))
              (SessionSend (the (sessionId s)) ''DOM.getBoxModel'' (BackendNodeParams n)) = None"
  shows "(boxModel env (Suc (length (sent s))) =
            Some (Some \<lparr>content = Some [x1, y1, x2, y2, x3, y3, x4, y4]\<rparr>) \<and>
          fails env (Suc (Suc (length (sent s))))
            (SessionSend (the (sessionId s)) ''Input.dispatchMouseEvent''
               (MouseEventParams ''mousePressed'' (Num ((x1 + x2 + x3 + x4) / 4))
                  (Num ((y1 + y2 + y3 + y4) / 4)) ''left'' 1)) = None
          \<longrightarrow>
          sent (snd (click env n s)) =
            sent s @
            [SessionSend (the (sessionId s)) ''DOM.enable'' NoParams,
             SessionSend (the (sessionId s)) ''DOM.getBoxModel'' (BackendNodeParams n),
             SessionSend (the (sessionId s)) ''Input.dispatchMouseEvent''
               (MouseEventParams ''mousePressed'' (Num ((x1 + x2 + x3 + x4) / 4))
                  (Num ((y1 + y2 + y3 + y4) / 4)) ''left'' 1),
             SessionSend (the (sessionId s)) ''Input.dispatchMouseEvent''
               (MouseEventParams ''mouseReleased'' (Num ((x1 + x2 + x3 + x4) / 4))
                  (Num ((y1 + y2 + y3 + y4) / 4)) ''left'' 1)]) \<and>
         (box_missing (boxModel env (Suc (length (sent s)))) \<longrightarrow>
          fst (click env n s) =
            Inl (''Element with backendNodeId '' @ string_of_int n @
                 '' not found or has no box model'') \<and>
          sent (snd (click env n s)) =
            sent s @
            [SessionSend (the (sessionId s)) ''DOM.enable'' NoParams,
             SessionSend (the (sessionId s)) ''DOM.getBoxModel'' (BackendNodeParams n)])"
proof -
  let ?sid = "the (sessionId s)"
  let ?enable = "SessionSend ?sid ''DOM.enable'' NoParams"
  let ?box = "SessionSend ?sid ''DOM.getBoxModel'' (BackendNodeParams n)"
  let ?press = "SessionSend ?sid ''Input.dispatchMouseEvent''
               (MouseEventParams ''mousePressed'' (Num ((x1 + x2 + x3 + x4) / 4))
                  (Num ((y1 + y2 + y3 + y4) / 4)) ''left'' 1)"
  let ?release = "SessionSend ?sid ''Input.dispatchMouseEvent''
               (MouseEventParams ''mouseReleased'' (Num ((x1 + x2 + x3 + x4) / 4))
                  (Num ((y1 + y2 + y3 + y4) / 4)) ''left'' 1)"
  define s1 where "s1 = s\<lparr>sent := sent s @ [?enable]\<rparr>"
  define s2 where "s2 = s1\<lparr>sent := sent s1 @ [?box]\<rparr>"
  define s3 where "s3 = s2\<lparr>sent := sent s2 @ [?press]\<rparr>"
  have p: "present (sessionId s)"
    using c by (simp add: cdp_connected_def)
  have c1: "cdp_connected s1" and c2: "cdp_connected s2" and c3: "cdp_connected s3"
    using c by (simp_all add: s1_def s2_def s3_def cdp_connected_def)
  have sid: "sessionId s1 = sessionId s" "sessionId s2 = sessionId s" "sessionId s3 = sessionId s"
    by (simp_all add: s1_def s2_def s3_def)
  have len: "length (sent s1) = Suc (length (sent s))" "length (sent s2) = Suc (Suc (length (sent s)))"
    by (simp_all add: s1_def s2_def)
  have r1: "send env ''DOM.enable'' NoParams s = (Inr (length (sent s)), s1)"
    unfolding s1_def by (rule click_send [OF c e])
  have r2: "send env ''DOM.getBoxModel'' (BackendNodeParams n) s1 = (Inr (Suc (length (sent s))), s2)"
    using click_send [OF c1, of env "''DOM.getBoxModel''" "BackendNodeParams n"] g
    by (simp add: sid len s2_def)
  have missing: "fst (click env n s) =
            Inl (''Element with backendNodeId '' @ string_of_int n @
                 '' not found or has no box model'') \<and>
          sent (snd (click env n s)) = sent s @ [?enable, ?box]"
    if m: "box_missing (boxModel env (Suc (length (sent s))))"
  proof -
    have "(case boxModel env (Suc (length (sent s))) of
             None \<Rightarrow> None | Some None \<Rightarrow> None | Some (Some model) \<Rightarrow> content model) = None"
      using m by (auto simp: box_missing_def)
    then have "click env n s =
        (Inl (''Element with backendNodeId '' @ string_of_int n @
              '' not found or has no box model''), s2)"
      using p by (simp add: click_def click_body_def bind_def r1 r2)
    then show ?thesis
      by (simp add: s1_def s2_def)
  qed
  have quad: "sent (snd (click env n s)) = sent s @ [?enable, ?box, ?press, ?release]"
    if b: "boxModel env (Suc (length (sent s))) =
            Some (Some \<lparr>content = Some [x1, y1, x2, y2, x3, y3, x4, y4]\<rparr>)"
      and pr: "fails env (Suc (Suc (length (sent s)))) ?press = None"
  proof -
    have r3: "send env ''Input.dispatchMouseEvent''
                (MouseEventParams ''mousePressed'' (Num ((x1 + x2 + x3 + x4) / 4))
                  (Num ((y1 + y2 + y3 + y4) / 4)) ''left'' 1) s2 = (Inr (Suc (Suc (length (sent s)))), s3)"
      using click_send [OF c2, of env "''Input.dispatchMouseEvent''"
              "MouseEventParams ''mousePressed'' (Num ((x1 + x2 + x3 + x4) / 4))
                  (Num ((y1 + y2 + y3 + y4) / 4)) ''left'' 1"] pr
      by (simp add: sid len s3_def)
    have r4: "sent (snd (send env ''Input.dispatchMouseEvent''
                (MouseEventParams ''mouseReleased'' (Num ((x1 + x2 + x3 + x4) / 4))
                  (Num ((y1 + y2 + y3 + y4) / 4)) ''left'' 1) s3)) = sent s3 @ [?release]"
      using click_send_sent [OF c3] by (simp add: sid)
    have "snd (click env n s) = snd (send env ''Input.dispatchMouseEvent''
                (MouseEventParams ''mouseReleased'' (Num ((x1 + x2 + x3 + x4) / 4))
                  (Num ((y1 + y2 + y3 + y4) / 4)) ''left'' 1) s3)"
      using p r3
      by (simp add: click_def click_body_def bind_def r1 r2 b Let_def js_index_simps
            eval_nat_numeral split: prod.splits sum.splits)
    then have "sent (snd (click env n s)) = sent s3 @ [?release]"
      by (simp only: r4)
    then show ?thesis
      by (simp add: s3_def s2_def s1_def)
  qed
  from missing quad show ?thesis by blast
qed

text \<open>A browser that reports the quad of a 100 by 40 box at (10, 20), and one that reports an empty content.\<close>

definition env_box :: cdp_env where
  "env_box = env_ok\<lparr>boxModel := (\<lambda>n. Some (Some \<lparr>content = Some [10, 20, 110, 20, 110, 60, 10, 60]\<rparr>))\<rparr>"

definition env_empty_box :: cdp_env where
  "env_empty_box = env_ok\<lparr>boxModel := (\<lambda>n. Some (Some \<lparr>content = Some []\<rparr>))\<rparr>"

lemma env_box_simps [simp]:
  "fails env_box n c = None" "fails env_empty_box n c = None"
  "boxModel env_box n = Some (Some \<lparr>content = Some [10, 20, 110, 20, 110, 60, 10, 60]\<rparr>)"
  "boxModel env_empty_box n = Some (Some \<lparr>content = Some []\<rparr>)"
  by (simp_all add: env_box_def env_empty_box_def env_ok_def)

lemma session1_sent_length [simp]: "length (sent session1) = 6"
  by (simp add: session1_eq)

text \<open>An instance: the click lands at (60, 40).\<close>

theorem click_by_backend_node_witness:
  "cdp_connected session1 \<and>
   fails env_box (length (sent session1)) (SessionSend (the (sessionId session1)) ''DOM.enable'' NoParams) = None \<and>
   fails env_box (Suc (length (sent session1)))
      (SessionSend (the (sessionId session1)) ''DOM.getBoxModel'' (BackendNodeParams 42)) = None \<and>
   boxModel env_box (Suc (length (sent session1))) =
      Some (Some \<lparr>content = Some [10, 20, 110, 20, 110, 60, 10, 60]\<rparr>) \<and>
   sent (snd (click env_box 42 session1)) =
     sent session1 @
       [SessionSend ''S1'' ''DOM.enable'' NoParams,
        SessionSend ''S1'' ''DOM.getBoxModel'' (BackendNodeParams 42),
        SessionSend ''S1'' ''Input.dispatchMouseEvent'' (MouseEventParams ''mousePressed'' (Num 60) (Num 40) ''left'' 1),
        SessionSend ''S1'' ''Input.dispatchMouseEvent'' (MouseEventParams ''mouseReleased'' (Num 60) (Num 40) ''left'' 1)]"
proof -
  have e: "fails env_box (length (sent session1))
             (SessionSend (the (sessionId session1)) ''DOM.enable'' NoParams) = None"
    and g: "fails env_box (Suc (length (sent session1)))
             (SessionSend (the (sessionId session1)) ''DOM.getBoxModel'' (BackendNodeParams 42)) = None"
    by simp_all
  note t = click_by_backend_node [OF session1_connected e g, of 10 20 110 20 110 60 10 60, THEN conjunct1]
  have "sent (snd (click env_box 42 session1)) =
     sent session1 @
       [SessionSend ''S1'' ''DOM.enable'' NoParams,
        SessionSend ''S1'' ''DOM.getBoxModel'' (BackendNodeParams 42),
        SessionSend ''S1'' ''Input.dispatchMouseEvent'' (MouseEventParams ''mousePressed'' (Num 60) (Num 40) ''left'' 1),
        SessionSend ''S1'' ''Input.dispatchMouseEvent'' (MouseEventParams ''mouseReleased'' (Num 60) (Num 40) ''left'' 1)]"
    using t by simp
  then show ?thesis
    using session1_connected by simp
qed

text \<open>
  C7 as stated fails for an empty content: the call does not fail with the message; it
  sends both mouse events, at coordinates that are \<open>NaN\<close>.
\<close>

theorem click_empty_content_counterexample:
  "cdp_connected session1 \<and>
   boxModel env_empty_box (Suc (length (sent session1))) = Some (Some \<lparr>content = Some []\<rparr>) \<and>
   fst (click env_empty_box 42 session1) = Inr () \<and>
   sent (snd (click env_empty_box 42 session1)) =
     sent session1 @
       [SessionSend ''S1'' ''DOM.enable'' NoParams,
        SessionSend ''S1'' ''DOM.getBoxModel'' (BackendNodeParams 42),
        SessionSend ''S1'' ''Input.dispatchMouseEvent'' (MouseEventParams ''mousePressed'' NaN NaN ''left'' 1),
        SessionSend ''S1'' ''Input.dispatchMouseEvent'' (MouseEventParams ''mouseReleased'' NaN NaN ''left'' 1)]"
  by (simp add: session1_connected click_def click_body_def bind_def send_def transport_def
        present_def Let_def js_index_simps)

subsection \<open>Opening and closing the connection to the browser\<close>

text \<open>
  \<^verbatim>\<open>emitPageList\<close> returns at once without a transport; a failure of
  \<^verbatim>\<open>Target.getTargets\<close> is logged and nothing is sent to the viewers.
\<close>

definition emitPageList :: "cdp_env \<Rightarrow> BrowserSession \<Rightarrow> BrowserSession" where
  "emitPageList env s =
     (if \<not> browserClient s then s
      else case transport env GetTargets s of
             (Inl e, s') \<Rightarrow> s'
           | (Inr n, s') \<Rightarrow> emitToViewers (BrowserPageList (allPages (targets env n)) (targetId s')) s')"

text \<open>
  The \<^verbatim>\<open>try\<close> block of \<^verbatim>\<open>connectToBrowser\<close>: the token is stored, the transport is
  opened (the first command of the log) and kept in \<^verbatim>\<open>browserClient\<close>, target discovery
  is switched on, the active page is elected and connected, or a blank page is created and
  connected when there is none, and the viewers are told. The three listeners installed on
  the transport run on later events of the browser; they are no part of the call.
\<close>

definition connectToBrowser_body ::
  "cdp_env \<Rightarrow> string \<Rightarrow> BrowserSession \<Rightarrow> (string + unit) \<times> BrowserSession" where
  "connectToBrowser_body env tok s =
     bind (transport env (OpenTransport tok))
       (\<lambda>_ s1.
          bind (transport env SetDiscoverTargets)
            (\<lambda>_. bind (findActiveTarget env)
              (\<lambda>activeTargetId.
                 bind (if present activeTargetId then connectToPage env (the activeTargetId)
                       else bind (transport env (CreateTarget ''about:blank''))
                              (\<lambda>n. connectToPage env (created env n)))
                   (\<lambda>_ s2. (Inr (), emitPageList env
                                      (emitToViewers (BrowserConnected (currentUrl s2) (targetId s2)) s2)))))
            (s1\<lparr>browserClient := True\<rparr>))
       (s\<lparr>token := tok\<rparr>)"

text \<open>The \<^verbatim>\<open>catch\<close> clause: the message of the error goes to the viewers as \<^verbatim>\<open>browser:error\<close>.\<close>

definition connectToBrowser ::
  "cdp_env \<Rightarrow> string \<Rightarrow> BrowserSession \<Rightarrow> (string + unit) \<times> BrowserSession" where
  "connectToBrowser env tok s =
     (case connectToBrowser_body env tok s of
        (Inl e, s') \<Rightarrow> (Inr (), emitToViewers (BrowserError e) s')
      | (Inr u, s') \<Rightarrow> (Inr (), s'))"

text \<open>
  \<^verbatim>\<open>disconnect\<close>: with a page session and a transport, stop the screencast and detach
  (errors are logged), then forget the page session; with a transport, close it (an error
  is logged) and forget it; then clear the remaining fields.
\<close>

definition disconnect :: "cdp_env \<Rightarrow> BrowserSession \<Rightarrow> BrowserSession" where
  "disconnect env s =
     (let s1 = (if present (sessionId s) \<and> browserClient s
                then (snd (bind (send env ''Page.stopScreencast'' NoParams)
                             (\<lambda>_. transport env (DetachFromTarget (the (sessionId s)))) s))
                     \<lparr>sessionId := None\<rparr>
                else s);
          s2 = (if browserClient s1
                then (snd (transport env CloseTransport s1))\<lparr>browserClient := False\<rparr>
                else s1)
      in s2\<lparr>targetId := None, token := [], screencastStarted := False,
             viewerClients := [], apiClients := []\<rparr>)"

section \<open>Session manager (\<^verbatim>\<open>SessionManager.ts\<close>)\<close>

text \<open>
  The three maps of the manager. Two more fields serve the statements only:
  \<open>nextObjectId\<close> numbers the client objects in the order of their creation, so that two
  clients made for one socket differ as the objects of the source do, and \<open>destroyed\<close>
  keeps the final state of every session that was removed from \<open>sessionsByToken\<close>, so that
  the commands it sent stay observable.
\<close>

record SessionManager =
  sessionsByToken :: "string \<rightharpoonup> BrowserSession"
  clientsBySocketId :: "string \<rightharpoonup> Client"
  socketTokenMap :: "string \<rightharpoonup> string"
  nextObjectId :: nat
  destroyed :: "BrowserSession list"

definition empty_manager :: SessionManager where
  "empty_manager = \<lparr>sessionsByToken = Map.empty, clientsBySocketId = Map.empty,
                     socketTokenMap = Map.empty, nextObjectId = 0, destroyed = []\<rparr>"

text \<open>
  \<^verbatim>\<open>removeClientFromSession\<close>. The guard \<^verbatim>\<open>token && client\<close> is a test of truthiness: an
  empty token does not pass. The reply to a \<^verbatim>\<open>Page.stopScreencast\<close> that \<^verbatim>\<open>removeClient\<close>
  fired arrives while \<^verbatim>\<open>disconnect\<close> waits for its own commands; its continuation changes
  the screencast flag only, which \<^verbatim>\<open>disconnect\<close> resets at its end, so the model runs it
  first. \<open>envs\<close> gives the browser behind every token.
\<close>

definition removeClientFromSession ::
  "(string \<Rightarrow> cdp_env) \<Rightarrow> string \<Rightarrow> SessionManager \<Rightarrow> (string + unit) \<times> SessionManager" where
  "removeClientFromSession envs socket m =
     (let m1 =
        (case (socketTokenMap m socket, clientsBySocketId m socket) of
           (Some tok, Some client) \<Rightarrow>
             if tok \<noteq> [] then
               (case sessionsByToken m tok of
                  Some session \<Rightarrow>
                    (case removeClient client session of
                       (hasOtherConnections, s1) \<Rightarrow>
                         if \<not> hasOtherConnections
                         then m\<lparr>sessionsByToken := (sessionsByToken m)(tok := None),
                                destroyed := destroyed m @ [disconnect (envs tok) (settle (envs tok) s1)]\<rparr>
                         else m\<lparr>sessionsByToken := (sessionsByToken m)(tok \<mapsto> settle (envs tok) s1)\<rparr>)
                | None \<Rightarrow> m)
             else m
         | _ \<Rightarrow> m)
      in (Inr (), m1\<lparr>clientsBySocketId := (clientsBySocketId m1)(socket := None),
                      socketTokenMap := (socketTokenMap m1)(socket := None)\<rparr>))"

text \<open>A \<^verbatim>\<open>ViewerClient\<close> or an \<^verbatim>\<open>ApiClient\<close> for the socket.\<close>

definition createClient :: "string \<Rightarrow> ClientType \<Rightarrow> nat \<Rightarrow> Client" where
  "createClient socket ctype oid = \<lparr>socketId = socket, clientType = ctype, objectId = oid\<rparr>"

text \<open>
  \<^verbatim>\<open>connectBrowser\<close>. The result is the value of \<^verbatim>\<open>reused\<close>, or the message of a
  rejection passed on from an awaited call. A session found under the token is reused and
  the new client alone is told \<^verbatim>\<open>browser:connected\<close>; otherwise a new session is
  registered and then connected.
\<close>

definition connectBrowser ::
  "(string \<Rightarrow> cdp_env) \<Rightarrow> string \<Rightarrow> string \<Rightarrow> ClientType \<Rightarrow> SessionManager
   \<Rightarrow> (string + bool) \<times> SessionManager" where
  "connectBrowser envs socket tok ctype =
     bind (\<lambda>m. if present (socketTokenMap m socket) then removeClientFromSession envs socket m
                else (Inr (), m))
       (\<lambda>_ m1.
          let client = createClient socket ctype (nextObjectId m1);
              m2 = m1\<lparr>clientsBySocketId := (clientsBySocketId m1)(socket \<mapsto> client),
                      socketTokenMap := (socketTokenMap m1)(socket \<mapsto> tok),
                      nextObjectId := Suc (nextObjectId m1)\<rparr>
          in case sessionsByToken m2 tok of
               Some session \<Rightarrow>
                 (let s1 = settle (envs tok) (addClient client session)
                  in (Inr True,
                      m2\<lparr>sessionsByToken := (sessionsByToken m2)
                            (tok \<mapsto> s1\<lparr>emitted := emitted s1 @ [(client, BrowserConnected [] None)]\<rparr>)\<rparr>))
             | None \<Rightarrow>
                 bind (\<lambda>m3. case connectToBrowser (envs tok) tok
                                   (settle (envs tok) (addClient client new_session)) of
                               (r, s') \<Rightarrow> (r, m3\<lparr>sessionsByToken := (sessionsByToken m3)(tok \<mapsto> s')\<rparr>))
                   (\<lambda>_ m4. (Inr False, m4)) m2)"

text \<open>
  The requests of a socket: \<^verbatim>\<open>browser:connect\<close> attaches, \<^verbatim>\<open>browser:disconnect\<close> and the
  loss of the socket detach. Every request comes with the browsers of its time, and each
  runs to its end before the next one starts.
\<close>

datatype manager_op = Attach string string ClientType | Detach string

fun manager_step :: "SessionManager \<Rightarrow> manager_op \<times> (string \<Rightarrow> cdp_env) \<Rightarrow> SessionManager" where
  "manager_step m (Attach socket tok ctype, envs) = snd (connectBrowser envs socket tok ctype m)"
| "manager_step m (Detach socket, envs) = snd (removeClientFromSession envs socket m)"

definition run_manager :: "(manager_op \<times> (string \<Rightarrow> cdp_env)) list \<Rightarrow> SessionManager \<Rightarrow> SessionManager" where
  "run_manager ops m = foldl manager_step m ops"

text \<open>A browser whose endpoint refuses the connection.\<close>

definition env_no_browser :: cdp_env where
  "env_no_browser = env_ok\<lparr>fails := (\<lambda>n c. case c of OpenTransport t \<Rightarrow> Some ''connect ECONNREFUSED''
                                               | _ \<Rightarrow> None)\<rparr>"

subsection \<open>How often a transport is closed\<close>

text \<open>The number of calls of \<^verbatim>\<open>browserClient.close()\<close> a session has made.\<close>

definition closes :: "BrowserSession \<Rightarrow> nat" where
  "closes s = count_list (sent s) CloseTransport"

lemma closes_fields [simp]:
  "closes (s\<lparr>browserClient := a\<rparr>) = closes s"
  "closes (s\<lparr>sessionId := b\<rparr>) = closes s"
  "closes (s\<lparr>targetId := b\<rparr>) = closes s"
  "closes (s\<lparr>currentUrl := c\<rparr>) = closes s"
  "closes (s\<lparr>token := c\<rparr>) = closes s"
  "closes (s\<lparr>viewerClients := d\<rparr>) = closes s"
  "closes (s\<lparr>apiClients := d\<rparr>) = closes s"
  "closes (s\<lparr>screencastStarted := a\<rparr>) = closes s"
  "closes (s\<lparr>pressedModifiers := e\<rparr>) = closes s"
  "closes (s\<lparr>emitted := f\<rparr>) = closes s"
  "closes (s\<lparr>pending := g\<rparr>) = closes s"
  "closes (emitToViewers ev s) = closes s"
  "closes (resume k r s) = closes s"
  by (simp_all add: closes_def)

lemma closes_transport:
  "closes (snd (transport env c s)) = closes s + (if c = CloseTransport then 1 else 0)"
  by (simp add: transport_def closes_def split: option.splits)

lemma closes_send: "closes (snd (send env method params s)) = closes s"
  by (simp add: send_def closes_transport)

text \<open>No command but the one of \<^verbatim>\<open>disconnect\<close> closes the transport.\<close>

lemma closes_bind:
  assumes "closes (snd (m s)) = k" and "\<And>a s'. closes s' = k \<Longrightarrow> closes (snd (f a s')) = k"
  shows "closes (snd (bind m f s)) = k"
  using assms by (cases "m s") (auto simp: bind_def split: sum.splits)

lemma closes_deliver: "closes (deliver env i s) = closes s"
  by (simp add: deliver_def split: prod.splits)

lemma closes_settle: "closes (settle env s) = closes s"
proof (induction env s rule: settle.induct)
  case (1 env s)
  show ?case
  proof (cases "pending s = []")
    case True
    then show ?thesis by (simp add: settle_none)
  next
    case False
    then have "settle env s = settle env (deliver env 0 s)" by (subst settle.simps) simp
    with 1 False show ?thesis by (simp add: closes_deliver)
  qed
qed

lemma settled_fields [simp]:
  "browserClient (settle env s) = browserClient s"
  "sessionId (settle env s) = sessionId s"
  "viewerClients (settle env s) = viewerClients s"
  "apiClients (settle env s) = apiClients s"
proof -
  have "browserClient (settle env s) = browserClient s \<and> sessionId (settle env s) = sessionId s \<and>
        viewerClients (settle env s) = viewerClients s \<and> apiClients (settle env s) = apiClients s"
  proof (induction env s rule: settle.induct)
    case (1 env s)
    show ?case
    proof (cases "pending s = []")
      case True
      then show ?thesis by (simp add: settle_none)
    next
      case False
      then have "settle env s = settle env (deliver env 0 s)" by (subst settle.simps) simp
      with 1 False show ?thesis by (simp add: deliver_def split: prod.splits)
    qed
  qed
  then show "browserClient (settle env s) = browserClient s"
    "sessionId (settle env s) = sessionId s"
    "viewerClients (settle env s) = viewerClients s"
    "apiClients (settle env s) = apiClients s" by simp_all
qed

lemma closes_addClient: "closes (addClient c s) = closes s"
  by (simp add: addClient_def suspend_def tryStartScreencast_begin_def startScreencast_begin_def
        send_begin_def transport_begin_def closes_def split: prod.splits option.splits)

lemma removeClient_fields:
  "closes (snd (removeClient c s)) = closes s"
  "browserClient (snd (removeClient c s)) = browserClient s"
  "sessionId (snd (removeClient c s)) = sessionId s"
  by (simp_all add: removeClient_def Let_def suspend_def tryStopScreencast_begin_def
        stopScreencast_begin_def send_begin_def transport_begin_def closes_def
        split: prod.splits option.splits)

lemma removeClient_count:
  "fst (removeClient c s) \<longleftrightarrow> getClientCount (snd (removeClient c s)) > 0"
  by (simp add: removeClient_def Let_def)

lemma closes_startScreencast: "closes (startScreencast env s) = closes s"
  by (simp add: startScreencast_def await_def startScreencast_begin_def send_begin_def
        transport_begin_def closes_def split: prod.splits option.splits)

lemma closes_connectToPage: "closes (snd (connectToPage env tid s)) = closes s"
  unfolding connectToPage_def
  by (simp, intro impI closes_bind)
     (simp_all add: closes_transport closes_send closes_startScreencast)

lemma closes_probe: "closes (snd (probe env page s)) = closes s"
  unfolding probe_def sendToSession_def
  by (intro closes_bind) (simp_all add: closes_transport)

lemma closes_probePages: "closes (snd (probePages env pages s)) = closes s"
proof (induction pages arbitrary: s)
  case Nil
  show ?case by simp
next
  case (Cons page rest)
  obtain r s' where p: "probe env page s = (r, s')" by (cases "probe env page s")
  from closes_probe [of env page s] p have "closes s' = closes s" by simp
  with p Cons [of s'] show ?case by simp
qed

lemma closes_findActiveTarget: "closes (snd (findActiveTarget env s)) = closes s"
proof (cases "browserClient s")
  case False
  then show ?thesis by (simp add: findActiveTarget_def)
next
  case True
  have "closes (snd (bind (transport env GetTargets)
          (\<lambda>n s1. case probePages env (nonBlankPages (targets env n)) s1 of
                  (Some found, s2) \<Rightarrow> (Inr (Some found), s2)
                | (None, s2) \<Rightarrow>
                    if length (nonBlankPages (targets env n)) > 0
                    then (Inr (Some (info_targetId (hd (nonBlankPages (targets env n))))), s2)
                    else if length (allPages (targets env n)) > 0
                    then (Inr (Some (info_targetId (hd (allPages (targets env n))))), s2)
                    else (Inr None, s2)) s)) = closes s"
  proof (rule closes_bind)
    show "closes (snd (transport env GetTargets s)) = closes s" by (simp add: closes_transport)
  next
    fix n s1
    assume k: "closes s1 = closes s"
    obtain r s2 where p: "probePages env (nonBlankPages (targets env n)) s1 = (r, s2)"
      by (cases "probePages env (nonBlankPages (targets env n)) s1")
    from closes_probePages [of env "nonBlankPages (targets env n)" s1] p k
    have "closes s2 = closes s" by simp
    with p show "closes (snd (case probePages env (nonBlankPages (targets env n)) s1 of
                  (Some found, s2) \<Rightarrow> (Inr (Some found), s2)
                | (None, s2) \<Rightarrow>
                    if length (nonBlankPages (targets env n)) > 0
                    then (Inr (Some (info_targetId (hd (nonBlankPages (targets env n))))), s2)
                    else if length (allPages (targets env n)) > 0
                    then (Inr (Some (info_targetId (hd (allPages (targets env n))))), s2)
                    else (Inr None, s2))) = closes s"
      by (cases r) simp_all
  qed
  with True show ?thesis by (simp add: findActiveTarget_def)
qed

lemma closes_emitPageList: "closes (emitPageList env s) = closes s"
  using closes_transport [of env GetTargets s]
  by (cases "transport env GetTargets s") (auto simp: emitPageList_def split: sum.splits)

lemma closes_connectToBrowser_body: "closes (snd (connectToBrowser_body env tok s)) = closes s"
  unfolding connectToBrowser_body_def
  by (intro closes_bind)
     (simp_all add: closes_transport closes_findActiveTarget closes_connectToPage
        closes_emitPageList closes_bind)

lemma closes_connectToBrowser: "closes (snd (connectToBrowser env tok s)) = closes s"
  using closes_connectToBrowser_body [of env tok s]
  by (cases "connectToBrowser_body env tok s") (auto simp: connectToBrowser_def split: sum.splits)

lemma connectToBrowser_resolves: "fst (connectToBrowser env tok s) = Inr ()"
  by (cases "connectToBrowser_body env tok s") (auto simp: connectToBrowser_def split: sum.splits)

lemma disconnect_fields:
  "closes (disconnect env s) = closes s + (if browserClient s then 1 else 0)"
  "\<not> browserClient (disconnect env s)"
  "getClientCount (disconnect env s) = 0"
  "\<not> screencastStarted (disconnect env s)"
proof -
  have b: "browserClient (snd (bind (send env ''Page.stopScreencast'' NoParams)
                             (\<lambda>_. transport env (DetachFromTarget (the (sessionId s)))) s))
           = browserClient s"
    by (simp add: bind_def send_def transport_def split: option.splits)
  have c: "closes (snd (bind (send env ''Page.stopScreencast'' NoParams)
                             (\<lambda>_. transport env (DetachFromTarget (the (sessionId s)))) s))
           = closes s"
    by (intro closes_bind) (simp_all add: closes_send closes_transport)
  have t: "\<And>s'. browserClient (snd (transport env CloseTransport s')) = browserClient s'"
    by (simp add: transport_def split: option.splits)
  show "closes (disconnect env s) = closes s + (if browserClient s then 1 else 0)"
    by (simp add: disconnect_def Let_def b c closes_transport)
  show "\<not> browserClient (disconnect env s)"
    by (simp add: disconnect_def Let_def b)
  show "getClientCount (disconnect env s) = 0"
    by (simp add: disconnect_def Let_def getClientCount_def)
  show "\<not> screencastStarted (disconnect env s)"
    by (simp add: disconnect_def Let_def)
qed

text \<open>No session that is registered under a token has closed its transport.\<close>

definition never_closed :: "SessionManager \<Rightarrow> bool" where
  "never_closed m = (\<forall>t s. sessionsByToken m t = Some s \<longrightarrow> closes s = 0)"

lemma never_closed_empty: "never_closed empty_manager"
  by (simp add: never_closed_def empty_manager_def)

lemma never_closed_removeClientFromSession:
  "never_closed m \<Longrightarrow> never_closed (snd (removeClientFromSession envs socket m))"
  by (auto simp: never_closed_def removeClientFromSession_def Let_def closes_settle
        removeClient_fields
        split: option.splits prod.splits if_splits
        dest: arg_cong [where f = "\<lambda>p. closes (settle (envs t) (snd p))" for t])

lemma removeClientFromSession_resolves: "fst (removeClientFromSession envs socket m) = Inr ()"
  by (simp add: removeClientFromSession_def Let_def)

lemma removeClientFromSession_fresh:
  "sessionsByToken m tok = None \<Longrightarrow>
   sessionsByToken (snd (removeClientFromSession envs socket m)) tok = None"
  by (auto simp: removeClientFromSession_def Let_def split: option.splits prod.splits)

lemma removeClientFromSession_nextObjectId:
  "nextObjectId (snd (removeClientFromSession envs socket m)) = nextObjectId m"
  by (auto simp: removeClientFromSession_def Let_def split: option.splits prod.splits)

text \<open>
  The two steps with which \<^verbatim>\<open>connectBrowser\<close> begins, and the function written without
  the plumbing of rejections, of which there are none.
\<close>

definition detached :: "(string \<Rightarrow> cdp_env) \<Rightarrow> string \<Rightarrow> SessionManager \<Rightarrow> SessionManager" where
  "detached envs socket m =
     (if present (socketTokenMap m socket) then snd (removeClientFromSession envs socket m) else m)"

definition registered :: "string \<Rightarrow> string \<Rightarrow> Client \<Rightarrow> SessionManager \<Rightarrow> SessionManager" where
  "registered socket tok client m =
     m\<lparr>clientsBySocketId := (clientsBySocketId m)(socket \<mapsto> client),
       socketTokenMap := (socketTokenMap m)(socket \<mapsto> tok),
       nextObjectId := Suc (nextObjectId m)\<rparr>"

lemma connectBrowser_unfold:
  "connectBrowser envs socket tok ctype m =
     (let m1 = detached envs socket m;
          client = createClient socket ctype (nextObjectId m1);
          m2 = registered socket tok client m1
      in case sessionsByToken m1 tok of
           Some session \<Rightarrow>
             (Inr True,
              m2\<lparr>sessionsByToken := (sessionsByToken m1)
                    (tok \<mapsto> (settle (envs tok) (addClient client session))
                       \<lparr>emitted := emitted (settle (envs tok) (addClient client session))
                                   @ [(client, BrowserConnected [] None)]\<rparr>)\<rparr>)
         | None \<Rightarrow>
             (Inr False,
              m2\<lparr>sessionsByToken := (sessionsByToken m1)
                    (tok \<mapsto> snd (connectToBrowser (envs tok) tok
                                    (settle (envs tok) (addClient client new_session))))\<rparr>))"
proof -
  obtain m' where r: "removeClientFromSession envs socket m = (Inr (), m')"
    using removeClientFromSession_resolves [of envs socket m]
    by (cases "removeClientFromSession envs socket m") simp
  have c: "\<And>s. \<exists>s'. connectToBrowser (envs tok) tok s = (Inr (), s')"
    using connectToBrowser_resolves [of "envs tok" tok]
    by (metis prod.collapse)
  show ?thesis
  proof (cases "present (socketTokenMap m socket)")
    case True
    then show ?thesis
      using c [of "settle (envs tok) (addClient (createClient socket ctype (nextObjectId m')) new_session)"]
      by (auto simp: connectBrowser_def bind_def r detached_def registered_def Let_def
            split: option.splits)
  next
    case False
    then show ?thesis
      using c [of "settle (envs tok) (addClient (createClient socket ctype (nextObjectId m)) new_session)"]
      by (auto simp: connectBrowser_def bind_def detached_def registered_def Let_def
            split: option.splits)
  qed
qed

lemma never_closed_detached: "never_closed m \<Longrightarrow> never_closed (detached envs socket m)"
  by (simp add: detached_def never_closed_removeClientFromSession)

lemma never_closed_connectBrowser:
  assumes "never_closed m"
  shows "never_closed (snd (connectBrowser envs socket tok ctype m))"
proof -
  from assms have d: "never_closed (detached envs socket m)" by (rule never_closed_detached)
  have n: "closes new_session = 0" by (simp add: closes_def new_session_def)
  show ?thesis
    using d n
    by (auto simp: connectBrowser_unfold Let_def never_closed_def registered_def
          closes_connectToBrowser closes_settle closes_addClient
          split: option.splits if_splits)
qed

lemma never_closed_step: "never_closed m \<Longrightarrow> never_closed (manager_step m op)"
  by (cases op; cases "fst op")
     (simp_all add: never_closed_connectBrowser never_closed_removeClientFromSession)

lemma never_closed_run: "never_closed m \<Longrightarrow> never_closed (run_manager ops m)"
  unfolding run_manager_def
  by (induction ops arbitrary: m) (simp_all add: never_closed_step)

subsection \<open>Destruction of a session\<close>

text \<open>
  A socket attached under the empty token is forgotten on detach, but its client is not
  taken from the session and the session is neither disconnected nor removed. A detach
  that leaves other clients keeps the session.
\<close>

lemma detach_empty_token:
  "socketTokenMap m socket = Some [] \<Longrightarrow>
   sessionsByToken (snd (removeClientFromSession envs socket m)) = sessionsByToken m \<and>
   destroyed (snd (removeClientFromSession envs socket m)) = destroyed m"
  by (simp add: removeClientFromSession_def Let_def split: option.splits)

lemma detach_leaving_clients:
  assumes "socketTokenMap m socket = Some tok" "tok \<noteq> []"
    and "clientsBySocketId m socket = Some client"
    and "sessionsByToken m tok = Some session"
    and "fst (removeClient client session)"
  shows "sessionsByToken (snd (removeClientFromSession envs socket m)) tok =
           Some (settle (envs tok) (snd (removeClient client session))) \<and>
         destroyed (snd (removeClientFromSession envs socket m)) = destroyed m"
  using assms by (cases "removeClient client session") (simp add: removeClientFromSession_def Let_def)

text \<open>
  C8 (as amended). After every sequence of attaches and detaches, when the detach of a
  client registered under a non-empty token leaves its session with zero clients, the
  token is absent from \<open>sessionsByToken\<close> afterwards, and over its whole life the session
  has closed its transport exactly once if it holds one (\<^verbatim>\<open>browserClient\<close> is set), and
  not at all if it holds none.
\<close>

theorem last_detach_closes_transport:
  assumes reach: "m = run_manager ops empty_manager"
    and tok: "socketTokenMap m socket = Some tok" "tok \<noteq> []"
    and client: "clientsBySocketId m socket = Some client"
    and session: "sessionsByToken m tok = Some session"
    and last: "\<not> fst (removeClient client session)"
  shows "sessionsByToken (snd (removeClientFromSession envs socket m)) tok = None \<and>
         destroyed (snd (removeClientFromSession envs socket m)) =
           destroyed m @ [disconnect (envs tok) (settle (envs tok) (snd (removeClient client session)))] \<and>
         closes (disconnect (envs tok) (settle (envs tok) (snd (removeClient client session)))) =
           (if browserClient session then 1 else 0) \<and>
         getClientCount (disconnect (envs tok) (settle (envs tok) (snd (removeClient client session)))) = 0"
proof -
  from reach have "never_closed m" by (simp add: never_closed_run never_closed_empty)
  with session have z: "closes session = 0" by (simp add: never_closed_def)
  obtain b s1 where r: "removeClient client session = (b, s1)" by (cases "removeClient client session")
  with last have b: "\<not> b" by simp
  have m': "snd (removeClientFromSession envs socket m) =
        m\<lparr>sessionsByToken := (sessionsByToken m)(tok := None),
          destroyed := destroyed m @ [disconnect (envs tok) (settle (envs tok) s1)],
          clientsBySocketId := (clientsBySocketId m)(socket := None),
          socketTokenMap := (socketTokenMap m)(socket := None)\<rparr>"
    using tok client session r b by (simp add: removeClientFromSession_def Let_def)
  have c: "closes (disconnect (envs tok) (settle (envs tok) s1)) = (if browserClient session then 1 else 0)"
    using removeClient_fields [of client session] r z
    by (simp add: disconnect_fields closes_settle)
  from m' c r show ?thesis by (simp add: disconnect_fields)
qed

subsection \<open>Attaching under a fresh token\<close>

text \<open>
  The requests \<^verbatim>\<open>connectToBrowser\<close> awaits, in order, on a new session against a browser
  that reports no page target: open, discover, list the targets, create a blank page,
  attach to it, and the four commands of \<^verbatim>\<open>connectToPage\<close> on the page session. The first
  of them that is rejected ends the \<^verbatim>\<open>try\<close> block with its error.
\<close>

definition connect_requests :: "cdp_env \<Rightarrow> string \<Rightarrow> cdp_call list" where
  "connect_requests env tok =
     [OpenTransport tok, SetDiscoverTargets, GetTargets, CreateTarget ''about:blank'',
      AttachToTarget (created env 3),
      SessionSend (attached env 4) ''Page.enable'' NoParams,
      SessionSend (attached env 4) ''Runtime.enable'' NoParams,
      SessionSend (attached env 4) ''Page.getFrameTree'' NoParams,
      SessionSend (attached env 4) ''Emulation.setDeviceMetricsOverride'' ViewportParams]"

lemma no_pages: "allPages infos = [] \<Longrightarrow> nonBlankPages infos = []"
  by (auto simp: allPages_def nonBlankPages_def filter_empty_conv)

lemma body_first_failure:
  assumes t: "allPages (targets env 2) = []" and a: "attached env 4 \<noteq> []"
    and s: "sent s = []" "emitted s = []"
    and k: "k < 9"
    and ok: "\<forall>i<k. fails env i (connect_requests env tok ! i) = None"
    and ko: "fails env k (connect_requests env tok ! k) = Some e"
  shows "fst (connectToBrowser_body env tok s) = Inl e \<and>
         sent (snd (connectToBrowser_body env tok s)) = take (Suc k) (connect_requests env tok) \<and>
         emitted (snd (connectToBrowser_body env tok s)) = [] \<and>
         viewerClients (snd (connectToBrowser_body env tok s)) = viewerClients s"
proof -
  note nb = no_pages [OF t]
  from k consider "k = 0" | "k = 1" | "k = 2" | "k = 3" | "k = 4" | "k = 5" | "k = 6" | "k = 7" | "k = 8"
    by linarith
  then show ?thesis
  proof cases
    case 1
    with ko s show ?thesis
      by (simp add: connect_requests_def connectToBrowser_body_def bind_def transport_def)
  next
    case 2
    with ko ok s show ?thesis
      by (simp add: connect_requests_def connectToBrowser_body_def bind_def transport_def)
  next
    case 3
    with ko ok s show ?thesis
      by (simp add: connect_requests_def connectToBrowser_body_def bind_def transport_def
            findActiveTarget_def eval_nat_numeral All_less_Suc)
  next
    case 4
    with ko ok s t nb show ?thesis
      by (simp add: connect_requests_def connectToBrowser_body_def bind_def transport_def
            findActiveTarget_def eval_nat_numeral All_less_Suc present_def)
  next
    case 5
    with ko ok s t nb show ?thesis
      by (simp add: connect_requests_def connectToBrowser_body_def bind_def transport_def
            findActiveTarget_def eval_nat_numeral All_less_Suc present_def connectToPage_def)
  next
    case 6
    with ko ok s t nb a show ?thesis
      by (simp add: connect_requests_def connectToBrowser_body_def bind_def transport_def
            findActiveTarget_def eval_nat_numeral All_less_Suc present_def connectToPage_def send_def)
  next
    case 7
    with ko ok s t nb a show ?thesis
      by (simp add: connect_requests_def connectToBrowser_body_def bind_def transport_def
            findActiveTarget_def eval_nat_numeral All_less_Suc present_def connectToPage_def send_def)
  next
    case 8
    with ko ok s t nb a show ?thesis
      by (simp add: connect_requests_def connectToBrowser_body_def bind_def transport_def
            findActiveTarget_def eval_nat_numeral All_less_Suc present_def connectToPage_def send_def)
  next
    case 9
    with ko ok s t nb a show ?thesis
      by (simp add: connect_requests_def connectToBrowser_body_def bind_def transport_def
            findActiveTarget_def eval_nat_numeral All_less_Suc present_def connectToPage_def send_def)
  qed
qed

text \<open>
  C9. For every token under which no session is registered and every client type,
  \<^verbatim>\<open>connectBrowser\<close> resolves with \<^verbatim>\<open>reused: false\<close> and does not reject; the new session
  is registered under the token in the state \<^verbatim>\<open>connectToBrowser\<close> left it in. Whatever
  error ends the \<^verbatim>\<open>try\<close> block, that state is the state at the throw with
  \<^verbatim>\<open>browser:error\<close> and the message of the error emitted to the viewers, and nothing
  else changed; when the block ends without error no \<^verbatim>\<open>browser:error\<close> is added. In
  particular, when opening the connection fails, the state is the new session with its
  client and token and one command sent, and when target discovery is rejected after the
  connection was opened, the session holds the transport and two commands were sent.
  Against a browser without a page target, whichever of the nine requests is the first to
  be rejected, the requests up to it are the ones sent and its message is what the viewers
  get as \<^verbatim>\<open>browser:error\<close>.
\<close>

theorem connectBrowser_fresh_token:
  assumes fresh: "sessionsByToken m tok = None"
  shows "fst (connectBrowser envs socket tok ctype m) = Inr False \<and>
         sessionsByToken (snd (connectBrowser envs socket tok ctype m)) tok =
           Some (snd (connectToBrowser (envs tok) tok
                   (addClient (createClient socket ctype (nextObjectId m)) new_session))) \<and>
         (\<forall>e s'. connectToBrowser_body (envs tok) tok
                    (addClient (createClient socket ctype (nextObjectId m)) new_session) = (Inl e, s') \<longrightarrow>
              snd (connectToBrowser (envs tok) tok
                     (addClient (createClient socket ctype (nextObjectId m)) new_session)) =
                emitToViewers (BrowserError e) s') \<and>
         (\<forall>s'. connectToBrowser_body (envs tok) tok
                    (addClient (createClient socket ctype (nextObjectId m)) new_session) = (Inr (), s') \<longrightarrow>
              snd (connectToBrowser (envs tok) tok
                     (addClient (createClient socket ctype (nextObjectId m)) new_session)) = s') \<and>
         (\<forall>e. fails (envs tok) 0 (OpenTransport tok) = Some e \<longrightarrow>
              snd (connectToBrowser (envs tok) tok
                     (addClient (createClient socket ctype (nextObjectId m)) new_session)) =
                emitToViewers (BrowserError e)
                  ((addClient (createClient socket ctype (nextObjectId m)) new_session)
                     \<lparr>token := tok, sent := [OpenTransport tok]\<rparr>)) \<and>
         (\<forall>e. fails (envs tok) 0 (OpenTransport tok) = None \<and>
              fails (envs tok) 1 SetDiscoverTargets = Some e \<longrightarrow>
              snd (connectToBrowser (envs tok) tok
                     (addClient (createClient socket ctype (nextObjectId m)) new_session)) =
                emitToViewers (BrowserError e)
                  ((addClient (createClient socket ctype (nextObjectId m)) new_session)
                     \<lparr>token := tok, browserClient := True,
                       sent := [OpenTransport tok, SetDiscoverTargets]\<rparr>)) \<and>
         (\<forall>k e. allPages (targets (envs tok) 2) = [] \<and> attached (envs tok) 4 \<noteq> [] \<and> k < 9 \<and>
              (\<forall>i<k. fails (envs tok) i (connect_requests (envs tok) tok ! i) = None) \<and>
              fails (envs tok) k (connect_requests (envs tok) tok ! k) = Some e \<longrightarrow>
              sent (snd (connectToBrowser (envs tok) tok
                     (addClient (createClient socket ctype (nextObjectId m)) new_session))) =
                take (Suc k) (connect_requests (envs tok) tok) \<and>
              emitted (snd (connectToBrowser (envs tok) tok
                     (addClient (createClient socket ctype (nextObjectId m)) new_session))) =
                map (\<lambda>c. (c, BrowserError e))
                  (viewerClients (addClient (createClient socket ctype (nextObjectId m)) new_session)))"
proof -
  let ?c = "createClient socket ctype (nextObjectId m)"
  let ?s = "addClient ?c new_session"
  have d: "sessionsByToken (detached envs socket m) tok = None"
    using fresh by (simp add: detached_def removeClientFromSession_fresh)
  have n: "nextObjectId (detached envs socket m) = nextObjectId m"
    by (simp add: detached_def removeClientFromSession_nextObjectId)
  have a: "pending ?s = []" "sent ?s = []"
    by (simp_all add: addClient_def new_session_def suspend_def tryStartScreencast_begin_def
          startScreencast_begin_def present_def set_add_def)
  then have s: "settle (envs tok) ?s = ?s"
    by (simp add: settle_none)
  have caught: "snd (connectToBrowser (envs tok) tok ?s) = emitToViewers (BrowserError e) s'"
    if "connectToBrowser_body (envs tok) tok ?s = (Inl e, s')" for e s'
    using that by (simp add: connectToBrowser_def)
  have passed: "snd (connectToBrowser (envs tok) tok ?s) = s'"
    if "connectToBrowser_body (envs tok) tok ?s = (Inr (), s')" for s'
    using that by (simp add: connectToBrowser_def)
  have f: "snd (connectToBrowser (envs tok) tok ?s) =
             emitToViewers (BrowserError e) (?s\<lparr>token := tok, sent := [OpenTransport tok]\<rparr>)"
    if "fails (envs tok) 0 (OpenTransport tok) = Some e" for e
    using that a
    by (simp add: connectToBrowser_def connectToBrowser_body_def bind_def transport_def)
  have g: "snd (connectToBrowser (envs tok) tok ?s) =
             emitToViewers (BrowserError e)
               (?s\<lparr>token := tok, browserClient := True,
                    sent := [OpenTransport tok, SetDiscoverTargets]\<rparr>)"
    if "fails (envs tok) 0 (OpenTransport tok) = None \<and>
        fails (envs tok) 1 SetDiscoverTargets = Some e" for e
    using that a
    by (simp add: connectToBrowser_def connectToBrowser_body_def bind_def transport_def)
  have r: "fst (connectBrowser envs socket tok ctype m) = Inr False"
    "sessionsByToken (snd (connectBrowser envs socket tok ctype m)) tok =
       Some (snd (connectToBrowser (envs tok) tok ?s))"
    using d n s by (simp_all add: connectBrowser_unfold Let_def registered_def)
  have e0: "emitted ?s = []"
    by (simp add: addClient_def new_session_def suspend_def tryStartScreencast_begin_def
          startScreencast_begin_def present_def set_add_def)
  have h: "sent (snd (connectToBrowser (envs tok) tok ?s)) = take (Suc k) (connect_requests (envs tok) tok) \<and>
           emitted (snd (connectToBrowser (envs tok) tok ?s)) =
             map (\<lambda>c. (c, BrowserError e)) (viewerClients ?s)"
    if "allPages (targets (envs tok) 2) = [] \<and> attached (envs tok) 4 \<noteq> [] \<and> k < 9 \<and>
        (\<forall>i<k. fails (envs tok) i (connect_requests (envs tok) tok ! i) = None) \<and>
        fails (envs tok) k (connect_requests (envs tok) tok ! k) = Some e" for k e
  proof -
    from that have p: "allPages (targets (envs tok) 2) = []" "attached (envs tok) 4 \<noteq> []" "k < 9"
      "\<forall>i<k. fails (envs tok) i (connect_requests (envs tok) tok ! i) = None"
      "fails (envs tok) k (connect_requests (envs tok) tok ! k) = Some e"
      by blast+
    note b = body_first_failure [OF p(1) p(2) a(2) e0 p(3) p(4) p(5)]
    obtain s' where s': "connectToBrowser_body (envs tok) tok ?s = (Inl e, s')"
      using b by (cases "connectToBrowser_body (envs tok) tok ?s") auto
    from caught [OF s'] b s' show ?thesis
      by (simp add: emitToViewers_def)
  qed
  from r caught passed f g h show ?thesis by blast
qed

subsection \<open>Instances\<close>

text \<open>
  The first viewer of a manager, and the sessions it gets from a browser that answers and
  from one that refuses the connection.
\<close>

definition viewer0 :: Client where
  "viewer0 = createClient ''sock1'' VIEWER 0"

definition session_ok :: BrowserSession where
  "session_ok = snd (connectToBrowser env_ok ''tok1'' (addClient viewer0 new_session))"

definition session_failed :: BrowserSession where
  "session_failed = snd (connectToBrowser env_no_browser ''tok1'' (addClient viewer0 new_session))"

lemma env_ok_more [simp]: "targets env_ok n = []" "created env_ok n = ''T9''"
  by (simp_all add: env_ok_def)

lemma env_no_browser_simps [simp]:
  "fails env_no_browser n (OpenTransport t) = Some ''connect ECONNREFUSED''"
  by (simp add: env_no_browser_def)

lemma viewer0_fields [simp]: "clientType viewer0 = VIEWER" "socketId viewer0 = ''sock1''"
  by (simp_all add: viewer0_def createClient_def)

lemma added_viewer0:
  "addClient viewer0 new_session = new_session\<lparr>viewerClients := [viewer0]\<rparr>"
  by (simp add: addClient_def new_session_def set_add_def suspend_def tryStartScreencast_begin_def
        startScreencast_begin_def present_def)

lemma session_ok_eq:
  "session_ok = \<lparr>browserClient = True, sessionId = Some ''S1'', targetId = Some ''T9'',
      currentUrl = ''about:blank'', token = ''tok1'', viewerClients = [viewer0], apiClients = [],
      screencastStarted = True, pressedModifiers = {},
      sent = [OpenTransport ''tok1'', SetDiscoverTargets, GetTargets,
              CreateTarget ''about:blank'', AttachToTarget ''T9'',
              SessionSend ''S1'' ''Page.enable'' NoParams,
              SessionSend ''S1'' ''Runtime.enable'' NoParams,
              SessionSend ''S1'' ''Page.getFrameTree'' NoParams,
              SessionSend ''S1'' ''Emulation.setDeviceMetricsOverride'' ViewportParams,
              SessionSend ''S1'' ''Page.startScreencast'' ScreencastParams,
              GetTargets],
      emitted = [(viewer0, BrowserConnected ''about:blank'' (Some ''T9'')),
                 (viewer0, BrowserPageList [] (Some ''T9''))],
      pending = []\<rparr>"
  by (simp only: session_ok_def added_viewer0)
     (simp add: new_session_def connectToBrowser_def
        connectToBrowser_body_def bind_def transport_def findActiveTarget_def nonBlankPages_def
        allPages_def connectToPage_def send_def present_def startScreencast_def await_def
        startScreencast_begin_def send_begin_def transport_begin_def outcome_def
        emitToViewers_def emitPageList_def)

lemma session_failed_eq:
  "session_failed = \<lparr>browserClient = False, sessionId = None, targetId = None,
      currentUrl = [], token = ''tok1'', viewerClients = [viewer0], apiClients = [],
      screencastStarted = False, pressedModifiers = {},
      sent = [OpenTransport ''tok1''],
      emitted = [(viewer0, BrowserError ''connect ECONNREFUSED'')],
      pending = []\<rparr>"
  by (simp only: session_failed_def added_viewer0)
     (simp add: new_session_def connectToBrowser_def
        connectToBrowser_body_def bind_def transport_def emitToViewers_def)

definition attach_ok_ops :: "(manager_op \<times> (string \<Rightarrow> cdp_env)) list" where
  "attach_ok_ops = [(Attach ''sock1'' ''tok1'' VIEWER, \<lambda>t. env_ok)]"

definition attach_failed_ops :: "(manager_op \<times> (string \<Rightarrow> cdp_env)) list" where
  "attach_failed_ops = [(Attach ''sock1'' ''tok1'' VIEWER, \<lambda>t. env_no_browser)]"

lemma empty_manager_fields [simp]:
  "sessionsByToken empty_manager = Map.empty" "clientsBySocketId empty_manager = Map.empty"
  "socketTokenMap empty_manager = Map.empty" "nextObjectId empty_manager = 0"
  "destroyed empty_manager = []"
  by (simp_all add: empty_manager_def)

lemma attached_manager:
  "run_manager [(Attach ''sock1'' ''tok1'' VIEWER, \<lambda>t. env)] empty_manager =
     \<lparr>sessionsByToken = [''tok1'' \<mapsto> snd (connectToBrowser env ''tok1'' (addClient viewer0 new_session))],
      clientsBySocketId = [''sock1'' \<mapsto> viewer0],
      socketTokenMap = [''sock1'' \<mapsto> ''tok1''], nextObjectId = 1, destroyed = []\<rparr>"
proof -
  have s: "settle env (addClient viewer0 new_session) = addClient viewer0 new_session"
    by (simp only: added_viewer0) (simp add: settle_none new_session_def)
  show ?thesis
    by (simp add: run_manager_def connectBrowser_unfold detached_def present_def Let_def
          registered_def viewer0_def [symmetric] s)
qed

lemma removed_viewer0_ok:
  "removeClient viewer0 session_ok =
     (False, session_ok\<lparr>viewerClients := [],
        sent := sent session_ok @ [SessionSend ''S1'' ''Page.stopScreencast'' NoParams],
        pending := [(StopScreencastK, Reply 11 (SessionSend ''S1'' ''Page.stopScreencast'' NoParams))]\<rparr>)"
  by (simp add: session_ok_eq removeClient_def Let_def set_delete_def suspend_def
        tryStopScreencast_begin_def stopScreencast_begin_def send_begin_def transport_begin_def
        present_def getClientCount_def)

lemma removed_viewer0_failed:
  "removeClient viewer0 session_failed = (False, session_failed\<lparr>viewerClients := []\<rparr>)"
  by (simp add: session_failed_eq removeClient_def Let_def set_delete_def suspend_def
        tryStopScreencast_begin_def getClientCount_def)

text \<open>An instance: the only viewer of a connected session detaches, and the transport is closed once.\<close>

theorem last_detach_closes_transport_witness:
  "socketTokenMap (run_manager attach_ok_ops empty_manager) ''sock1'' = Some ''tok1'' \<and>
   clientsBySocketId (run_manager attach_ok_ops empty_manager) ''sock1'' = Some viewer0 \<and>
   sessionsByToken (run_manager attach_ok_ops empty_manager) ''tok1'' = Some session_ok \<and>
   \<not> fst (removeClient viewer0 session_ok) \<and> browserClient session_ok \<and>
   sessionsByToken (snd (removeClientFromSession (\<lambda>t. env_ok) ''sock1''
                           (run_manager attach_ok_ops empty_manager))) ''tok1'' = None \<and>
   map closes (destroyed (snd (removeClientFromSession (\<lambda>t. env_ok) ''sock1''
                                 (run_manager attach_ok_ops empty_manager)))) = [1]"
proof -
  have m: "socketTokenMap (run_manager attach_ok_ops empty_manager) ''sock1'' = Some ''tok1''"
    "clientsBySocketId (run_manager attach_ok_ops empty_manager) ''sock1'' = Some viewer0"
    "sessionsByToken (run_manager attach_ok_ops empty_manager) ''tok1'' = Some session_ok"
    "destroyed (run_manager attach_ok_ops empty_manager) = []"
    by (simp_all add: attach_ok_ops_def attached_manager session_ok_def)
  have t: "''tok1'' \<noteq> []" by simp
  have l: "\<not> fst (removeClient viewer0 session_ok)" by (simp add: removed_viewer0_ok)
  have b: "browserClient session_ok" by (simp add: session_ok_eq)
  from last_detach_closes_transport [OF refl m(1) t m(2) m(3) l, where envs = "\<lambda>t. env_ok"] m l b
  show ?thesis by simp
qed

text \<open>
  C8 as stated fails when the connection could not be opened: the session stays registered
  with its client; the detach of that client leaves it with zero clients and removes the
  token, and the close of the transport is not invoked.
\<close>

theorem unopened_transport_counterexample:
  "map_option getClientCount (sessionsByToken (run_manager attach_failed_ops empty_manager) ''tok1'')
     = Some 1 \<and>
   sessionsByToken (run_manager (attach_failed_ops @ [(Detach ''sock1'', \<lambda>t. env_no_browser)])
                      empty_manager) ''tok1'' = None \<and>
   map (\<lambda>s. (getClientCount s, closes s, sent s))
     (destroyed (run_manager (attach_failed_ops @ [(Detach ''sock1'', \<lambda>t. env_no_browser)])
                   empty_manager))
     = [(0, 0, [OpenTransport ''tok1''])]"
proof -
  have r: "run_manager (attach_failed_ops @ [(Detach ''sock1'', \<lambda>t. env_no_browser)]) empty_manager
           = snd (removeClientFromSession (\<lambda>t. env_no_browser) ''sock1''
                    (run_manager attach_failed_ops empty_manager))"
    by (simp add: run_manager_def)
  have m: "run_manager attach_failed_ops empty_manager =
     \<lparr>sessionsByToken = [''tok1'' \<mapsto> session_failed],
      clientsBySocketId = [''sock1'' \<mapsto> viewer0],
      socketTokenMap = [''sock1'' \<mapsto> ''tok1''], nextObjectId = 1, destroyed = []\<rparr>"
    by (simp add: attach_failed_ops_def attached_manager session_failed_def)
  have d: "disconnect env_no_browser (session_failed\<lparr>viewerClients := []\<rparr>) =
             session_failed\<lparr>viewerClients := [], token := []\<rparr>"
    by (simp add: session_failed_eq disconnect_def Let_def present_def)
  show ?thesis
    unfolding r
    by (simp add: m removeClientFromSession_def Let_def removed_viewer0_failed settle_none
          session_failed_eq [THEN arg_cong, of pending] d)
       (simp add: session_failed_eq getClientCount_def closes_def)
qed

text \<open>A browser that accepts the connection and rejects target discovery.\<close>

definition env_no_discovery :: cdp_env where
  "env_no_discovery = env_ok\<lparr>fails := (\<lambda>n c. case c of SetDiscoverTargets \<Rightarrow> Some ''Target closed''
                                                 | _ \<Rightarrow> None)\<rparr>"

definition session_undiscovered :: BrowserSession where
  "session_undiscovered = snd (connectToBrowser env_no_discovery ''tok1'' (addClient viewer0 new_session))"

lemma env_no_discovery_simps [simp]:
  "fails env_no_discovery n (OpenTransport t) = None"
  "fails env_no_discovery n SetDiscoverTargets = Some ''Target closed''"
  by (simp_all add: env_no_discovery_def)

lemma body_undiscovered:
  "connectToBrowser_body env_no_discovery ''tok1'' (addClient viewer0 new_session) =
     (Inl ''Target closed'',
      \<lparr>browserClient = True, sessionId = None, targetId = None,
       currentUrl = [], token = ''tok1'', viewerClients = [viewer0], apiClients = [],
       screencastStarted = False, pressedModifiers = {},
       sent = [OpenTransport ''tok1'', SetDiscoverTargets], emitted = [], pending = []\<rparr>)"
  by (simp only: added_viewer0)
     (simp add: new_session_def connectToBrowser_body_def bind_def transport_def)

text \<open>A browser without pages that refuses to create one.\<close>

definition env_no_create :: cdp_env where
  "env_no_create = env_ok\<lparr>fails := (\<lambda>n c. case c of CreateTarget u \<Rightarrow> Some ''Cannot create target''
                                              | _ \<Rightarrow> None)\<rparr>"

definition session_uncreated :: BrowserSession where
  "session_uncreated = snd (connectToBrowser env_no_create ''tok1'' (addClient viewer0 new_session))"

lemma env_no_create_simps:
  "allPages (targets env_no_create 2) = []" "attached env_no_create 4 \<noteq> []"
  "\<forall>i<3. fails env_no_create i (connect_requests env_no_create ''tok1'' ! i) = None"
  "fails env_no_create 3 (connect_requests env_no_create ''tok1'' ! 3) = Some ''Cannot create target''"
  "take (Suc 3) (connect_requests env_no_create ''tok1'') =
     [OpenTransport ''tok1'', SetDiscoverTargets, GetTargets, CreateTarget ''about:blank'']"
  by (simp_all add: env_no_create_def env_ok_def allPages_def connect_requests_def
        eval_nat_numeral All_less_Suc)

text \<open>
  Instances: the endpoint refuses the connection; the connection opens and the browser
  rejects \<^verbatim>\<open>Target.setDiscoverTargets\<close>; the browser has no page and rejects
  \<^verbatim>\<open>Target.createTarget\<close>.
\<close>

theorem connectBrowser_fresh_token_witness:
  "sessionsByToken empty_manager ''tok1'' = None \<and>
   fst (connectBrowser (\<lambda>t. env_no_browser) ''sock1'' ''tok1'' VIEWER empty_manager) = Inr False \<and>
   fails env_no_browser 0 (OpenTransport ''tok1'') = Some ''connect ECONNREFUSED'' \<and>
   sessionsByToken (snd (connectBrowser (\<lambda>t. env_no_browser) ''sock1'' ''tok1'' VIEWER empty_manager))
     ''tok1'' = Some session_failed \<and>
   \<not> browserClient session_failed \<and>
   emitted session_failed = [(viewer0, BrowserError ''connect ECONNREFUSED'')] \<and>
   viewerClients session_failed = [viewer0] \<and>
   fst (connectBrowser (\<lambda>t. env_no_discovery) ''sock1'' ''tok1'' VIEWER empty_manager) = Inr False \<and>
   fst (connectToBrowser_body env_no_discovery ''tok1'' (addClient viewer0 new_session))
     = Inl ''Target closed'' \<and>
   sessionsByToken (snd (connectBrowser (\<lambda>t. env_no_discovery) ''sock1'' ''tok1'' VIEWER empty_manager))
     ''tok1'' = Some session_undiscovered \<and>
   browserClient session_undiscovered \<and>
   sent session_undiscovered = [OpenTransport ''tok1'', SetDiscoverTargets] \<and>
   emitted session_undiscovered = [(viewer0, BrowserError ''Target closed'')] \<and>
   allPages (targets env_no_create 2) = [] \<and> attached env_no_create 4 \<noteq> [] \<and>
   fails env_no_create 3 (connect_requests env_no_create ''tok1'' ! 3) = Some ''Cannot create target'' \<and>
   sessionsByToken (snd (connectBrowser (\<lambda>t. env_no_create) ''sock1'' ''tok1'' VIEWER empty_manager))
     ''tok1'' = Some session_uncreated \<and>
   sent session_uncreated =
     [OpenTransport ''tok1'', SetDiscoverTargets, GetTargets, CreateTarget ''about:blank''] \<and>
   emitted session_uncreated = [(viewer0, BrowserError ''Cannot create target'')]"
proof -
  have f: "sessionsByToken empty_manager ''tok1'' = None" by simp
  note a = connectBrowser_fresh_token [OF f, where envs = "\<lambda>t. env_no_browser"
      and socket = "''sock1''" and ctype = VIEWER]
  note b = connectBrowser_fresh_token [OF f, where envs = "\<lambda>t. env_no_discovery"
      and socket = "''sock1''" and ctype = VIEWER]
  from a have 1:
    "fst (connectBrowser (\<lambda>t. env_no_browser) ''sock1'' ''tok1'' VIEWER empty_manager) = Inr False"
    "sessionsByToken (snd (connectBrowser (\<lambda>t. env_no_browser) ''sock1'' ''tok1'' VIEWER empty_manager))
       ''tok1'' = Some session_failed"
    by (simp_all add: viewer0_def [symmetric] session_failed_def [symmetric])
  from b have 2:
    "fst (connectBrowser (\<lambda>t. env_no_discovery) ''sock1'' ''tok1'' VIEWER empty_manager) = Inr False"
    "sessionsByToken (snd (connectBrowser (\<lambda>t. env_no_discovery) ''sock1'' ''tok1'' VIEWER empty_manager))
       ''tok1'' = Some session_undiscovered"
    by (simp_all add: viewer0_def [symmetric] session_undiscovered_def [symmetric])
  from b [THEN conjunct2, THEN conjunct2, THEN conjunct1]
  have "\<forall>e s'. connectToBrowser_body env_no_discovery ''tok1'' (addClient viewer0 new_session)
                  = (Inl e, s') \<longrightarrow>
                session_undiscovered = emitToViewers (BrowserError e) s'"
    by (simp add: viewer0_def [symmetric] session_undiscovered_def [symmetric])
  with body_undiscovered
  have 3: "session_undiscovered =
      emitToViewers (BrowserError ''Target closed'')
        \<lparr>browserClient = True, sessionId = None, targetId = None,
         currentUrl = [], token = ''tok1'', viewerClients = [viewer0], apiClients = [],
         screencastStarted = False, pressedModifiers = {},
         sent = [OpenTransport ''tok1'', SetDiscoverTargets], emitted = [], pending = []\<rparr>"
    by blast
  note c = connectBrowser_fresh_token [OF f, where envs = "\<lambda>t. env_no_create"
      and socket = "''sock1''" and ctype = VIEWER]
  from c have 4:
    "sessionsByToken (snd (connectBrowser (\<lambda>t. env_no_create) ''sock1'' ''tok1'' VIEWER empty_manager))
       ''tok1'' = Some session_uncreated"
    by (simp add: viewer0_def [symmetric] session_uncreated_def [symmetric])
  from c [THEN conjunct2, THEN conjunct2, THEN conjunct2, THEN conjunct2, THEN conjunct2,
      THEN conjunct2, rule_format, of 3 "''Cannot create target''"]
    env_no_create_simps
  have 5: "sent session_uncreated =
             [OpenTransport ''tok1'', SetDiscoverTargets, GetTargets, CreateTarget ''about:blank'']"
    "emitted session_uncreated = [(viewer0, BrowserError ''Cannot create target'')]"
    by (simp_all add: viewer0_def [symmetric] session_uncreated_def [symmetric]
          added_viewer0 [THEN arg_cong, of viewerClients])
  from 1 2 4 5 env_no_create_simps show ?thesis
    by (simp add: session_failed_eq body_undiscovered 3 emitToViewers_def)
qed

end
